theory Spec2Isabelle
  imports
    Complex_Main
    "HOL-Library.AList"
    "HOL-Library.Char_ord"
    "HOL-Library.List_Lexorder"
    "HOL-Library.Log_Nat"
    "HOL-Library.Multiset"
    "HOL-Library.Product_Lexorder"
    "HOL-Library.Sublist"
begin

section \<open>Common Python values\<close>

text \<open>
  Names of files, directories and archive entries are \<^typ>\<open>string\<close>s. Python compares
  strings by code point; \<^theory_text>\<open>Char_ord\<close> and \<^theory_text>\<open>List_Lexorder\<close> give the same
  order on ASCII names (and on UTF-8 encoded ones, since UTF-8 keeps the code point order).
  The character classes of the regular expressions below are the ASCII ones.
\<close>

datatype py_error =
    KeyError string
  | OverflowError
  | OSError string
  | TypeError string
  | Exception string
  | KeyboardInterrupt

text \<open>
  \<^verbatim>\<open>str(n)\<close> for a Python integer, and the format \<^verbatim>\<open>f"{n:0Wd}"\<close> that pads with zeros
  to the width \<open>W\<close>, the sign included.
\<close>

definition digit_char :: "int \<Rightarrow> char" where
  "digit_char d = char_of (48 + d)"

function str_digits :: "int \<Rightarrow> string" where
  "str_digits n = (if n < 10 then [digit_char n] else str_digits (n div 10) @ [digit_char (n mod 10)])"
  by pat_completeness auto
termination
  by (relation "measure nat") auto

declare str_digits.simps [simp del]

definition str_int :: "int \<Rightarrow> string" where
  "str_int n = (if n < 0 then CHR ''-'' # str_digits (- n) else str_digits n)"

definition zero_pad :: "nat \<Rightarrow> string \<Rightarrow> string" where
  "zero_pad width s = replicate (width - length s) CHR ''0'' @ s"

definition format_0d :: "nat \<Rightarrow> int \<Rightarrow> string" where
  "format_0d width n =
     (if n < 0 then CHR ''-'' # zero_pad (width - 1) (str_digits (- n))
      else zero_pad width (str_digits n))"

text \<open>The \<open>w\<close> low decimal digits of \<open>n\<close>, the fixed-width form that the padding aims at.\<close>

fun fixed_digits :: "nat \<Rightarrow> int \<Rightarrow> string" where
  "fixed_digits 0 n = []"
| "fixed_digits (Suc w) n = fixed_digits w (n div 10) @ [digit_char (n mod 10)]"

text \<open>\<^verbatim>\<open>os.path.join(a, b)\<close> of \<^verbatim>\<open>posixpath\<close>, for two components.\<close>

definition path_join :: "string \<Rightarrow> string \<Rightarrow> string" where
  "path_join a b =
     (if b \<noteq> [] \<and> hd b = CHR ''/'' then b
      else if a = [] \<or> last a = CHR ''/'' then a @ b
      else a @ ''/'' @ b)"

text \<open>
  \<^verbatim>\<open>str.lower\<close> (on ASCII letters), \<^verbatim>\<open>str.endswith\<close> and \<^verbatim>\<open>str.rfind\<close> (\<open>-1\<close> when the
  character is not there).
\<close>

definition lower_char :: "char \<Rightarrow> char" where
  "lower_char c = (if CHR ''A'' \<le> c \<and> c \<le> CHR ''Z'' then char_of (of_char c + (32::nat)) else c)"

definition lower :: "string \<Rightarrow> string" where
  "lower s = map lower_char s"

definition endswith :: "string \<Rightarrow> string \<Rightarrow> bool" where
  "endswith s suf \<longleftrightarrow> suffix suf s"

definition rfind :: "string \<Rightarrow> char \<Rightarrow> int" where
  "rfind p c =
     (if c \<in> set p then int (length p) - 1 - int (length (takeWhile (\<lambda>x. x \<noteq> c) (rev p)))
      else - 1)"

text \<open>
  \<^verbatim>\<open>os.path.basename\<close> and \<^verbatim>\<open>os.path.splitext\<close> of \<^verbatim>\<open>posixpath\<close>. The extension starts at
  the last dot of the last component, unless only dots come before it there.
\<close>

definition basename :: "string \<Rightarrow> string" where
  "basename p = drop (nat (rfind p CHR ''/'' + 1)) p"

definition splitext :: "string \<Rightarrow> string \<times> string" where
  "splitext p =
     (let sepIndex = rfind p CHR ''/''; dotIndex = rfind p CHR ''.'' in
      if dotIndex > sepIndex \<and>
         list_ex (\<lambda>x. x \<noteq> CHR ''.'')
           (take (nat (dotIndex - (sepIndex + 1))) (drop (nat (sepIndex + 1)) p))
      then (take (nat dotIndex) p, drop (nat dotIndex) p)
      else (p, []))"

section \<open>The archive splitter (\<^verbatim>\<open>splitter.py\<close>)\<close>

text \<open>
  A ZIP archive as \<^verbatim>\<open>zipfile.ZipFile\<close> shows it: \<^verbatim>\<open>infolist()\<close>, the entries of the
  central directory in their order. An entry carries its name and its uncompressed size
  (\<^verbatim>\<open>ZipInfo.file_size\<close>, an unsigned field of the format).
\<close>

record zip_info =
  filename :: string
  file_size :: nat

type_synonym zip_archive = "zip_info list"

definition namelist :: "zip_archive \<Rightarrow> string list" where
  "namelist cbz = map filename cbz"

text \<open>
  \<^verbatim>\<open>getinfo(name)\<close> looks the name up in \<^verbatim>\<open>NameToInfo\<close>, the dictionary that
  \<^verbatim>\<open>zipfile\<close> fills while it reads the central directory: a later entry of the same name
  replaces an earlier one. A name that is not there raises \<^verbatim>\<open>KeyError\<close>.
\<close>

definition getinfo :: "zip_archive \<Rightarrow> string \<Rightarrow> py_error + zip_info" where
  "getinfo cbz name =
     (case find (\<lambda>i. filename i = name) (rev cbz) of
        None \<Rightarrow> Inl (KeyError name)
      | Some i \<Rightarrow> Inr i)"

text \<open>\<^verbatim>\<open>get_cbz_size\<close>: the sum of \<^verbatim>\<open>file_size\<close> over \<^verbatim>\<open>infolist()\<close>.\<close>

definition get_cbz_size :: "zip_archive \<Rightarrow> int" where
  "get_cbz_size cbz = foldl (\<lambda>total_size file_info. total_size + int (file_size file_info)) 0 cbz"

text \<open>
  The state of the loop of \<^verbatim>\<open>split_cbz\<close>. An output archive is recorded as its path and
  the entry names written to it, in the order of the \<^verbatim>\<open>writestr\<close> calls; the bytes of an
  entry \<^verbatim>\<open>f\<close> are \<^verbatim>\<open>cbz.read(f)\<close>, the data of \<^verbatim>\<open>getinfo(f)\<close>.
\<close>

record split_state =
  current_part :: int
  current_size :: int
  current_files :: "string list"
  output_files :: "(string \<times> string list) list"

definition part_path :: "string \<Rightarrow> string \<Rightarrow> int \<Rightarrow> string" where
  "part_path output_dir base_name n =
     path_join output_dir (base_name @ ''_part'' @ str_int n @ ''.cbz'')"

definition flush_part :: "string \<Rightarrow> string \<Rightarrow> split_state \<Rightarrow> split_state" where
  "flush_part output_dir base_name st =
     st\<lparr>output_files :=
          output_files st @ [(part_path output_dir base_name (current_part st), current_files st)],
        current_part := current_part st + 1,
        current_size := 0,
        current_files := []\<rparr>"

fun split_loop ::
  "zip_archive \<Rightarrow> string \<Rightarrow> string \<Rightarrow> int \<Rightarrow> string list \<Rightarrow> split_state \<Rightarrow> py_error + split_state"
where
  "split_loop cbz output_dir base_name max_size [] st = Inr st"
| "split_loop cbz output_dir base_name max_size (file_name # files) st =
     (case getinfo cbz file_name of
        Inl e \<Rightarrow> Inl e
      | Inr file_info \<Rightarrow>
          (let st1 =
                 (if current_size st + int (file_size file_info) > max_size \<and> current_files st \<noteq> []
                  then flush_part output_dir base_name st else st)
           in split_loop cbz output_dir base_name max_size files
                (st1\<lparr>current_files := current_files st1 @ [file_name],
                     current_size := current_size st1 + int (file_size file_info)\<rparr>)))"

text \<open>
  \<^verbatim>\<open>split_cbz(input_path, output_dir, max_size)\<close>. The archive at \<^verbatim>\<open>input_path\<close> is
  \<open>cbz\<close>, and \<open>base_name\<close> is \<^verbatim>\<open>Path(input_path).stem\<close>. The result is the list of output
  archives made, each with its entry names.
\<close>

definition split_cbz ::
  "zip_archive \<Rightarrow> string \<Rightarrow> string \<Rightarrow> int \<Rightarrow> py_error + (string \<times> string list) list"
where
  "split_cbz cbz base_name output_dir max_size =
     (case split_loop cbz output_dir base_name max_size (sort (namelist cbz))
             \<lparr>current_part = 1, current_size = 0, current_files = [], output_files = []\<rparr> of
        Inl e \<Rightarrow> Inl e
      | Inr st \<Rightarrow>
          Inr (if current_files st \<noteq> []
               then output_files (flush_part output_dir base_name st)
               else output_files st))"

text \<open>The uncompressed size of the entry that \<^verbatim>\<open>split_cbz\<close> writes for a name.\<close>

definition entry_size :: "zip_archive \<Rightarrow> string \<Rightarrow> int" where
  "entry_size cbz name = (case getinfo cbz name of Inl e \<Rightarrow> 0 | Inr i \<Rightarrow> int (file_size i))"

definition part_size :: "zip_archive \<Rightarrow> string list \<Rightarrow> int" where
  "part_size cbz names = sum_list (map (entry_size cbz) names)"

text \<open>
  Greedy packing, on the list of parts: no part is empty, and a part ends only where taking
  the first entry of the next part as well would have passed the ceiling.
\<close>

fun greedy_parts :: "zip_archive \<Rightarrow> int \<Rightarrow> string list list \<Rightarrow> bool" where
  "greedy_parts cbz max_size [] \<longleftrightarrow> True"
| "greedy_parts cbz max_size [p] \<longleftrightarrow> p \<noteq> []"
| "greedy_parts cbz max_size (p # q # ps) \<longleftrightarrow>
     p \<noteq> [] \<and> q \<noteq> [] \<and> part_size cbz p + entry_size cbz (hd q) > max_size \<and>
     greedy_parts cbz max_size (q # ps)"

text \<open>
  The part of \<^verbatim>\<open>main\<close> of the splitter after an archive has been selected:
  \<open>max_size_bytes\<close> is the ceiling in bytes. The result is what is printed first and the
  output archives made.
\<close>

datatype split_report = No_splitting_needed | Split_complete

definition splitter_main ::
  "zip_archive \<Rightarrow> string \<Rightarrow> string \<Rightarrow> int \<Rightarrow> py_error + split_report \<times> (string \<times> string list) list"
where
  "splitter_main selected_file base_name output_dir max_size_bytes =
     (let original_size = get_cbz_size selected_file in
      if original_size \<le> max_size_bytes then Inr (No_splitting_needed, [])
      else (case split_cbz selected_file base_name output_dir max_size_bytes of
              Inl e \<Rightarrow> Inl e
            | Inr created \<Rightarrow> Inr (Split_complete, created)))"

section \<open>Regular expressions as \<^verbatim>\<open>re\<close> matches them\<close>

text \<open>
  The patterns of the program are built from character classes, the greedy quantifiers
  \<^verbatim>\<open>*\<close>, \<^verbatim>\<open>+\<close> on a class and \<^verbatim>\<open>?\<close> on a sub-pattern, concatenation and numbered
  groups. \<^verbatim>\<open>\d\<close> and \<^verbatim>\<open>\s\<close> are taken on ASCII: the ten digits, and the characters for
  which \<^verbatim>\<open>str.isspace\<close> holds below 128.
\<close>

datatype cls = Lit char | OneOf "char list" | Digit | Space

fun in_cls :: "cls \<Rightarrow> char \<Rightarrow> bool" where
  "in_cls (Lit c) x \<longleftrightarrow> x = c"
| "in_cls (OneOf cs) x \<longleftrightarrow> x \<in> set cs"
| "in_cls Digit x \<longleftrightarrow> CHR ''0'' \<le> x \<and> x \<le> CHR ''9''"
| "in_cls Space x \<longleftrightarrow>
     x \<in> set [CHR '' '', CHR 0x09, CHR 0x0A, CHR 0x0B, CHR 0x0C, CHR 0x0D,
              CHR 0x1C, CHR 0x1D, CHR 0x1E, CHR 0x1F]"

datatype regex =
    Eps
  | Atom cls
  | Star cls
  | Plus cls
  | Opt regex
  | Seq regex regex
  | Group nat regex

text \<open>
  A match in progress carries the text of the groups closed so far, latest first. The
  matcher is the backtracking one of \<^verbatim>\<open>re\<close>, written with a continuation \<open>k\<close> for the
  rest of the pattern: a greedy quantifier first tries to take one more character and
  falls back to the continuation when the rest fails, so the first success found is the
  match that \<^verbatim>\<open>re\<close> reports.
\<close>

type_synonym groups = "(nat \<times> string) list"

fun star_match :: "cls \<Rightarrow> string \<Rightarrow> (string \<Rightarrow> 'a option) \<Rightarrow> 'a option" where
  "star_match c [] k = k []"
| "star_match c (x # xs) k =
     (if in_cls c x
      then (case star_match c xs k of Some r \<Rightarrow> Some r | None \<Rightarrow> k (x # xs))
      else k (x # xs))"

primrec rmatch ::
  "regex \<Rightarrow> string \<Rightarrow> groups \<Rightarrow> (string \<Rightarrow> groups \<Rightarrow> 'a option) \<Rightarrow> 'a option"
where
  "rmatch Eps s g k = k s g"
| "rmatch (Atom c) s g k =
     (case s of [] \<Rightarrow> None | x # xs \<Rightarrow> if in_cls c x then k xs g else None)"
| "rmatch (Star c) s g k = star_match c s (\<lambda>s'. k s' g)"
| "rmatch (Plus c) s g k =
     (case s of [] \<Rightarrow> None
      | x # xs \<Rightarrow> if in_cls c x then star_match c xs (\<lambda>s'. k s' g) else None)"
| "rmatch (Opt r) s g k = (case rmatch r s g k of Some m \<Rightarrow> Some m | None \<Rightarrow> k s g)"
| "rmatch (Seq r1 r2) s g k = rmatch r1 s g (\<lambda>s' g'. rmatch r2 s' g' k)"
| "rmatch (Group n r) s g k =
     rmatch r s g (\<lambda>s' g'. k s' ((n, take (length s - length s') s) # g'))"

text \<open>\<^verbatim>\<open>re.match\<close> tries the pattern at the start of the string only.\<close>

definition re_match :: "regex \<Rightarrow> string \<Rightarrow> groups option" where
  "re_match r s = rmatch r s [] (\<lambda>s' g. Some g)"

text \<open>\<^verbatim>\<open>re.search\<close> tries every start position from the left, the end of the string included.\<close>

fun re_search :: "regex \<Rightarrow> string \<Rightarrow> groups option" where
  "re_search r [] = re_match r []"
| "re_search r (x # xs) =
     (case re_match r (x # xs) of Some g \<Rightarrow> Some g | None \<Rightarrow> re_search r xs)"

text \<open>
  \<^verbatim>\<open>match.group(n)\<close>. \<open>group_opt\<close> is \<open>None\<close> for a group that took no part in the match;
  \<open>group\<close> is for the groups that lie outside every \<^verbatim>\<open>?\<close> and so take part in every match
  (\<open>group_of_sure_group\<close> below).
\<close>

definition group_opt :: "groups \<Rightarrow> nat \<Rightarrow> string option" where
  "group_opt m n = map_of m n"

definition group :: "groups \<Rightarrow> nat \<Rightarrow> string" where
  "group m n = (case map_of m n of None \<Rightarrow> [] | Some s \<Rightarrow> s)"

fun sure_groups :: "regex \<Rightarrow> nat set" where
  "sure_groups (Group n r) = insert n (sure_groups r)"
| "sure_groups (Seq r1 r2) = sure_groups r1 \<union> sure_groups r2"
| "sure_groups _ = {}"

fun seqs :: "regex list \<Rightarrow> regex" where
  "seqs [] = Eps"
| "seqs (r # rs) = Seq r (seqs rs)"

definition lit :: "string \<Rightarrow> regex list" where
  "lit s = map (\<lambda>c. Atom (Lit c)) s"

section \<open>Python numbers\<close>

text \<open>
  A Python \<^verbatim>\<open>float\<close> is a binary64 value. The floats of this program come from digit
  strings, so they are non-negative: a finite one is the rational number it denotes
  exactly, and \<open>Infinity\<close> is \<^verbatim>\<open>float('inf')\<close>.
\<close>

datatype pyfloat = Finite rat | Infinity

instantiation pyfloat :: linorder
begin

fun less_eq_pyfloat :: "pyfloat \<Rightarrow> pyfloat \<Rightarrow> bool" where
  "less_eq_pyfloat (Finite a) (Finite b) \<longleftrightarrow> a \<le> b"
| "less_eq_pyfloat x Infinity \<longleftrightarrow> True"
| "less_eq_pyfloat Infinity (Finite b) \<longleftrightarrow> False"

definition less_pyfloat :: "pyfloat \<Rightarrow> pyfloat \<Rightarrow> bool" where
  "less_pyfloat x y \<longleftrightarrow> x \<le> y \<and> \<not> y \<le> x"

instance
proof
  fix x y z :: pyfloat
  show "x < y \<longleftrightarrow> x \<le> y \<and> \<not> y \<le> x"
    by (simp add: less_pyfloat_def)
  show "x \<le> x"
    by (cases x) simp_all
  show "x \<le> y \<Longrightarrow> y \<le> z \<Longrightarrow> x \<le> z"
    by (cases x; cases y; cases z) simp_all
  show "x \<le> y \<Longrightarrow> y \<le> x \<Longrightarrow> x = y"
    by (cases x; cases y) simp_all
  show "x \<le> y \<or> y \<le> x"
    by (cases x; cases y) auto
qed

end

text \<open>
  Rounding a positive rational to binary64, to nearest and ties to even, as \<^verbatim>\<open>float(str)\<close>
  does: \<open>floor_log2 q\<close> is the binary exponent of \<open>q\<close>, the unit in the last place is
  \<open>2\<close> to the power \<open>u\<close> (53 significant bits, and no smaller than the subnormal unit),
  and a result from \<open>2 ^ 1024\<close> on is infinite.
\<close>

definition pow2 :: "int \<Rightarrow> rat" where
  "pow2 e = (if 0 \<le> e then 2 ^ nat e else 1 / 2 ^ nat (- e))"

definition floor_log2 :: "rat \<Rightarrow> int" where
  "floor_log2 q =
     (let (a, b) = quotient_of q; d = bitlen a - bitlen b
      in if pow2 d \<le> q then d else d - 1)"

definition round_half_even :: "rat \<Rightarrow> int" where
  "round_half_even q =
     (let f = \<lfloor>q\<rfloor>; d = q - of_int f
      in if d < 1 / 2 then f else if 1 / 2 < d then f + 1 else if even f then f else f + 1)"

definition binary64 :: "rat \<Rightarrow> pyfloat" where
  "binary64 q =
     (if q \<le> 0 then Finite 0
      else (let u = max (floor_log2 q - 52) (- 1074);
                v = of_int (round_half_even (q / pow2 u)) * pow2 u
            in if v \<noteq> 0 \<and> 1024 \<le> floor_log2 v then Infinity else Finite v))"

text \<open>\<^verbatim>\<open>int(s)\<close> for a string of digits.\<close>

definition is_digit :: "char \<Rightarrow> bool" where
  "is_digit c \<longleftrightarrow> CHR ''0'' \<le> c \<and> c \<le> CHR ''9''"

definition int_of_str :: "string \<Rightarrow> int" where
  "int_of_str s = foldl (\<lambda>n c. 10 * n + (of_char c - 48)) 0 s"

text \<open>
  \<^verbatim>\<open>float(s)\<close> for the strings it is given here: digits, then possibly a dot and more
  digits (what \<^verbatim>\<open>\d+\.?\d*\<close> captures, and the digit strings that the program formats).
\<close>

definition float_of_str :: "string \<Rightarrow> pyfloat" where
  "float_of_str s =
     (let ds = takeWhile is_digit s; fs = drop 1 (dropWhile is_digit s)
      in binary64 (of_int (int_of_str (ds @ fs)) / 10 ^ length fs))"

text \<open>\<^verbatim>\<open>int(x)\<close> for a float: truncation, and \<^verbatim>\<open>OverflowError\<close> for infinity.\<close>

definition int_of_float :: "pyfloat \<Rightarrow> py_error + int" where
  "int_of_float x =
     (case x of
        Finite q \<Rightarrow> Inr (if 0 \<le> q then \<lfloor>q\<rfloor> else \<lceil>q\<rceil>)
      | Infinity \<Rightarrow> Inl OverflowError)"

section \<open>The chapter-number extractor (\<^verbatim>\<open>chapter_combiner_external.py\<close>)\<close>

text \<open>The group \<^verbatim>\<open>(\d+\.?\d*)\<close> that patterns 1 to 3 end with.\<close>

definition number_group :: regex where
  "number_group = Group 1 (seqs [Plus Digit, Opt (Atom (Lit CHR ''.'')), Star Digit])"

text \<open>\<^verbatim>\<open>[Cc]h\.\s*(\d+\.?\d*)\<close>\<close>

definition ch_items :: "regex list" where
  "ch_items = [Atom (OneOf ''Cc'')] @ lit ''h.'' @ [Star Space, number_group]"

definition pattern1 :: regex where
  "pattern1 = seqs ch_items"

text \<open>\<^verbatim>\<open>[Cc]hapter\s+(\d+\.?\d*)\<close>\<close>

definition pattern2 :: regex where
  "pattern2 = seqs ([Atom (OneOf ''Cc'')] @ lit ''hapter'' @ [Plus Space, number_group])"

text \<open>\<^verbatim>\<open>[Vv]ol\.\d+\s*[Cc]h\.\s*(\d+\.?\d*)\<close>\<close>

definition pattern3 :: regex where
  "pattern3 = seqs ([Atom (OneOf ''Vv'')] @ lit ''ol.'' @ [Plus Digit, Star Space] @ ch_items)"

text \<open>\<^verbatim>\<open>[Vv]ol\.\s*(\d+)\s*[Ff]loor\s+(\d+)\<close>\<close>

definition pattern4 :: regex where
  "pattern4 =
     seqs ([Atom (OneOf ''Vv'')] @ lit ''ol.'' @
           [Star Space, Group 1 (Plus Digit), Star Space, Atom (OneOf ''Ff'')] @ lit ''loor'' @
           [Plus Space, Group 2 (Plus Digit)])"

text \<open>\<^verbatim>\<open>[Vv]ol\.\s*(\d+)\s*[Ee]xtra\<close>\<close>

definition pattern5 :: regex where
  "pattern5 =
     seqs ([Atom (OneOf ''Vv'')] @ lit ''ol.'' @
           [Star Space, Group 1 (Plus Digit), Star Space, Atom (OneOf ''Ee'')] @ lit ''xtra'')"

text \<open>The value that each rule returns for its match.\<close>

definition rule_number :: "groups \<Rightarrow> pyfloat" where
  "rule_number m = float_of_str (group m 1)"

definition rule_floor :: "groups \<Rightarrow> pyfloat" where
  "rule_floor m =
     (let vol_num = int_of_str (group m 1); floor_num = int_of_str (group m 2)
      in float_of_str (str_int vol_num @ format_0d 3 floor_num))"

definition rule_extra :: "groups \<Rightarrow> pyfloat" where
  "rule_extra m =
     (let vol_num = int_of_str (group m 1)
      in float_of_str (str_int (vol_num + 1) @ ''000''))"

definition extract_chapter_number :: "string \<Rightarrow> pyfloat option" where
  "extract_chapter_number dirname =
     (case re_search pattern1 dirname of Some m \<Rightarrow> Some (rule_number m) | None \<Rightarrow>
     (case re_search pattern2 dirname of Some m \<Rightarrow> Some (rule_number m) | None \<Rightarrow>
     (case re_search pattern3 dirname of Some m \<Rightarrow> Some (rule_number m) | None \<Rightarrow>
     (case re_search pattern4 dirname of Some m \<Rightarrow> Some (rule_floor m) | None \<Rightarrow>
     (case re_search pattern5 dirname of Some m \<Rightarrow> Some (rule_extra m) | None \<Rightarrow>
      None)))))"

text \<open>
  The specification's account of the extractor: a list of rules in priority order, each a
  pattern with the value it gives, and the first rule whose pattern is found wins.
\<close>

definition chapter_rules :: "(regex \<times> (groups \<Rightarrow> pyfloat)) list" where
  "chapter_rules =
     [(pattern1, rule_number), (pattern2, rule_number), (pattern3, rule_number),
      (pattern4, rule_floor), (pattern5, rule_extra)]"

fun first_match :: "(regex \<times> (groups \<Rightarrow> pyfloat)) list \<Rightarrow> string \<Rightarrow> pyfloat option" where
  "first_match [] s = None"
| "first_match (rule # rules) s =
     (case re_search (fst rule) s of Some m \<Rightarrow> Some (snd rule m) | None \<Rightarrow> first_match rules s)"

text \<open>The extractor as the specification would have it with rule 3 taken out.\<close>

definition extract_chapter_number_without_rule3 :: "string \<Rightarrow> pyfloat option" where
  "extract_chapter_number_without_rule3 dirname =
     (case re_search pattern1 dirname of Some m \<Rightarrow> Some (rule_number m) | None \<Rightarrow>
     (case re_search pattern2 dirname of Some m \<Rightarrow> Some (rule_number m) | None \<Rightarrow>
     (case re_search pattern4 dirname of Some m \<Rightarrow> Some (rule_floor m) | None \<Rightarrow>
     (case re_search pattern5 dirname of Some m \<Rightarrow> Some (rule_extra m) | None \<Rightarrow>
      None))))"

section \<open>The directory combiner (\<^verbatim>\<open>chapter_combiner_external.py\<close>)\<close>

text \<open>
  The manga directory as \<^verbatim>\<open>os.listdir\<close> and \<^verbatim>\<open>os.path.isdir\<close> show it: its items in the
  order of the listing, each a regular file or a directory with the names of the files in
  it.
\<close>

datatype dir_entry = RegularFile | Directory "string list"

type_synonym manga_tree = "(string \<times> dir_entry) list"

fun isdir :: "dir_entry \<Rightarrow> bool" where
  "isdir (Directory files) \<longleftrightarrow> True"
| "isdir RegularFile \<longleftrightarrow> False"

definition listdir :: "manga_tree \<Rightarrow> string \<Rightarrow> py_error + string list" where
  "listdir manga_dir name =
     (case map_of manga_dir name of
        Some (Directory files) \<Rightarrow> Inr files
      | _ \<Rightarrow> Inl (OSError name))"

text \<open>
  \<^verbatim>\<open>extract_chapter_number(x) or float('inf')\<close>: Python's \<^verbatim>\<open>or\<close> gives its right operand
  when the left one is false, and both \<^verbatim>\<open>None\<close> and \<^verbatim>\<open>0.0\<close> are false.
\<close>

definition or_inf :: "pyfloat option \<Rightarrow> pyfloat" where
  "or_inf v = (case v of None \<Rightarrow> Infinity | Some x \<Rightarrow> if x = Finite 0 then Infinity else x)"

text \<open>\<^verbatim>\<open>sorted(..., key=...)\<close> is stable and ascending, as \<^const>\<open>sort_key\<close> is.\<close>

definition get_chapter_directories :: "manga_tree \<Rightarrow> string list" where
  "get_chapter_directories manga_dir =
     (let chapter_dirs = map fst (filter (\<lambda>item. isdir (snd item)) manga_dir)
      in sort_key (\<lambda>x. or_inf (extract_chapter_number x)) chapter_dirs)"

text \<open>
  The temporary directory: each file name in it once, with the image that was copied
  there, named by its chapter directory and its file name. \<^verbatim>\<open>shutil.copy2\<close> replaces a
  file that is already there.
\<close>

type_synonym image = "string \<times> string"

type_synonym staging = "(string \<times> image) list"

definition is_image :: "string \<Rightarrow> bool" where
  "is_image f \<longleftrightarrow>
     endswith (lower f) ''.jpg'' \<or> endswith (lower f) ''.jpeg'' \<or>
     endswith (lower f) ''.png'' \<or> endswith (lower f) ''.webp''"

definition new_name :: "string \<Rightarrow> nat \<Rightarrow> string \<Rightarrow> string" where
  "new_name chapter_num_str i image_file =
     chapter_num_str @ ''_'' @ format_0d 3 (int i) @ snd (splitext image_file)"

definition process_chapter :: "string \<Rightarrow> string list \<Rightarrow> staging \<Rightarrow> string \<Rightarrow> staging" where
  "process_chapter chapter_dir listing temp_dir chapter_num_str =
     (let image_files = sort (filter is_image listing)
      in fold (\<lambda>(i, image_file).
                 AList.update (new_name chapter_num_str i image_file) (chapter_dir, image_file))
           (zip [1 ..< Suc (length image_files)] image_files) temp_dir)"

text \<open>\<^verbatim>\<open>f"{int(chapter_num):04d}"\<close>\<close>

definition chapter_num_str :: "pyfloat \<Rightarrow> py_error + string" where
  "chapter_num_str chapter_num =
     (case int_of_float chapter_num of Inl e \<Rightarrow> Inl e | Inr n \<Rightarrow> Inr (format_0d 4 n))"

text \<open>
  The loop of \<^verbatim>\<open>combine_chapters\<close> over the chapter directories: the state is the
  temporary directory and the warnings printed so far.
\<close>

fun combine_loop ::
  "manga_tree \<Rightarrow> string list \<Rightarrow> staging \<times> string list \<Rightarrow> py_error + staging \<times> string list"
where
  "combine_loop manga_dir [] st = Inr st"
| "combine_loop manga_dir (chapter_dir_name # rest) (temp_dir, warnings) =
     (case extract_chapter_number chapter_dir_name of
        None \<Rightarrow> combine_loop manga_dir rest (temp_dir, warnings @ [chapter_dir_name])
      | Some chapter_num \<Rightarrow>
          (case chapter_num_str chapter_num of
             Inl e \<Rightarrow> Inl e
           | Inr num_str \<Rightarrow>
               (case listdir manga_dir chapter_dir_name of
                  Inl e \<Rightarrow> Inl e
                | Inr listing \<Rightarrow>
                    combine_loop manga_dir rest
                      (process_chapter chapter_dir_name listing temp_dir num_str, warnings))))"

text \<open>
  \<^verbatim>\<open>combine_chapters(manga_dir, output_path)\<close>: the entries written to the output archive,
  in the order of the \<^verbatim>\<open>write\<close> calls, each with the image it holds, and the directories
  warned about.
\<close>

definition combine_chapters :: "manga_tree \<Rightarrow> py_error + (string \<times> image) list \<times> string list" where
  "combine_chapters manga_dir =
     (let chapter_dirs = get_chapter_directories manga_dir in
      if chapter_dirs = []
      then Inl (Exception ''No chapter directories found in the selected manga directory'')
      else (case combine_loop manga_dir chapter_dirs ([], []) of
              Inl e \<Rightarrow> Inl e
            | Inr (temp_dir, warnings) \<Rightarrow>
                Inr (List.map_filter (\<lambda>file. map_option (Pair file) (map_of temp_dir file))
                       (sort (map fst temp_dir)),
                     warnings)))"

text \<open>
  The specification's account of the archive. The chapters are the subdirectories whose
  name the extractor parses. Where the number of a chapter is a whole number, that number
  is its key in the entry names (\<open>whole_key\<close>; a number with a fractional part has none
  here). The images of a chapter are its files with an image extension, sorted; an entry is
  named by the four digits of the key, an underscore, the three digits of the page index
  from 1 and the extension of the image; and the archive lists the chapters by ascending
  key and the pages of each by ascending index.
\<close>

definition subdirectories :: "manga_tree \<Rightarrow> string list" where
  "subdirectories manga_dir = map fst (filter (\<lambda>item. isdir (snd item)) manga_dir)"

definition parsed_dirs :: "manga_tree \<Rightarrow> string list" where
  "parsed_dirs manga_dir =
     filter (\<lambda>d. extract_chapter_number d \<noteq> None) (subdirectories manga_dir)"

definition unparsed_dirs :: "manga_tree \<Rightarrow> string list" where
  "unparsed_dirs manga_dir =
     filter (\<lambda>d. extract_chapter_number d = None) (subdirectories manga_dir)"

definition whole_key :: "string \<Rightarrow> int option" where
  "whole_key d =
     (case extract_chapter_number d of
        Some (Finite q) \<Rightarrow> if q = of_int \<lfloor>q\<rfloor> then Some \<lfloor>q\<rfloor> else None
      | _ \<Rightarrow> None)"

definition key_in_range :: "string \<Rightarrow> bool" where
  "key_in_range d \<longleftrightarrow> (case whole_key d of Some n \<Rightarrow> n < 10000 | None \<Rightarrow> False)"

definition int_key :: "string \<Rightarrow> int" where
  "int_key d = (case whole_key d of Some n \<Rightarrow> n | None \<Rightarrow> 0)"

definition images :: "manga_tree \<Rightarrow> string \<Rightarrow> string list" where
  "images manga_dir d =
     sort (filter is_image (case listdir manga_dir d of Inl e \<Rightarrow> [] | Inr files \<Rightarrow> files))"

definition entry_name :: "int \<Rightarrow> nat \<Rightarrow> string \<Rightarrow> string" where
  "entry_name key i image_file =
     fixed_digits 4 key @ ''_'' @ fixed_digits 3 (int i) @ snd (splitext image_file)"

definition chapter_entries :: "manga_tree \<Rightarrow> string \<Rightarrow> (string \<times> image) list" where
  "chapter_entries manga_dir d =
     map (\<lambda>(i, image_file). (entry_name (int_key d) i image_file, (d, image_file)))
       (zip [1 ..< Suc (length (images manga_dir d))] (images manga_dir d))"

definition expected_archive :: "manga_tree \<Rightarrow> (string \<times> image) list" where
  "expected_archive manga_dir =
     concat (map (chapter_entries manga_dir) (sort_key int_key (parsed_dirs manga_dir)))"

section \<open>The fetch pipeline (\<^verbatim>\<open>downloader.py\<close>)\<close>

text \<open>\<^verbatim>\<open>Chapter_(\d+)(?:\.(\d+))?\<close> and \<^verbatim>\<open>Chapter_(\d+\.?\d*)\<close>\<close>

definition chapter_file_pattern :: regex where
  "chapter_file_pattern =
     seqs (lit ''Chapter_'' @
           [Group 1 (Plus Digit), Opt (seqs [Atom (Lit CHR ''.''), Group 2 (Plus Digit)])])"

definition downloaded_pattern :: regex where
  "downloaded_pattern = seqs (lit ''Chapter_'' @ [number_group])"

text \<open>
  The output folder of a manga as \<^verbatim>\<open>os.listdir\<close> shows it: the file names in the order of
  the listing, and for a chapter archive the names of its entries (\<^verbatim>\<open>infolist()\<close>).
\<close>

type_synonym chapter_folder = "(string \<times> string list) list"

text \<open>
  \<^verbatim>\<open>extract_chapter(chapter_path, temp_dir)\<close> into an empty directory: the files it leaves
  there, each with the archive and the entry it was copied from.
\<close>

definition extract_chapter :: "string \<Rightarrow> string list \<Rightarrow> py_error + staging" where
  "extract_chapter chapter_file entries =
     (let chapter_name = fst (splitext (basename chapter_file)) in
      case re_match chapter_file_pattern chapter_name of
        None \<Rightarrow> Inl (Exception (''Could not extract chapter number from filename: '' @ chapter_name))
      | Some m \<Rightarrow>
          (let main_num = group m 1;
               decimal_part = (case group_opt m 2 of
                                 None \<Rightarrow> ''0''
                               | Some d \<Rightarrow> if d \<noteq> [] then d else ''0'');
               chapter_num = format_0d 3 (int_of_str main_num) @ ''.'' @ decimal_part
           in Inr (fold (\<lambda>entry temp_dir.
                           if lower entry = ''metadata.txt'' then temp_dir
                           else (let base_name = basename entry;
                                     (name, ext) = splitext base_name
                                 in AList.update (chapter_num @ name @ ext) (chapter_file, entry)
                                      temp_dir))
                     entries [])))"

text \<open>
  The prefix \<^verbatim>\<open>chapter_num\<close> that \<^verbatim>\<open>extract_chapter\<close> puts before the names of the entries
  of an archive: the chapter number padded to three digits, a dot and the decimal part.
\<close>

definition chapter_num :: "string \<Rightarrow> string" where
  "chapter_num chapter_file =
     (case re_match chapter_file_pattern (fst (splitext (basename chapter_file))) of
        None \<Rightarrow> []
      | Some m \<Rightarrow>
          format_0d 3 (int_of_str (group m 1)) @ ''.'' @
          (case group_opt m 2 of None \<Rightarrow> ''0'' | Some d \<Rightarrow> if d \<noteq> [] then d else ''0''))"

text \<open>
  \<^verbatim>\<open>combine_chapters(manga_dir, output_path)\<close> of the downloader: the entries written to
  the combined archive, in the order of the \<^verbatim>\<open>write\<close> calls.
\<close>

fun downloader_combine_loop ::
  "chapter_folder \<Rightarrow> string list \<Rightarrow> (string \<times> image) list \<Rightarrow> py_error + (string \<times> image) list"
where
  "downloader_combine_loop manga_dir [] output_cbz = Inr output_cbz"
| "downloader_combine_loop manga_dir (chapter_file # rest) output_cbz =
     (case map_of manga_dir chapter_file of
        None \<Rightarrow> Inl (OSError chapter_file)
      | Some entries \<Rightarrow>
          (case extract_chapter chapter_file entries of
             Inl e \<Rightarrow> Inl e
           | Inr chapter_temp_dir \<Rightarrow>
               downloader_combine_loop manga_dir rest
                 (output_cbz @
                  List.map_filter
                    (\<lambda>file. if lower file = ''metadata.txt'' then None
                            else map_option (Pair file) (map_of chapter_temp_dir file))
                    (sort (map fst chapter_temp_dir)))))"

definition downloader_combine_chapters :: "chapter_folder \<Rightarrow> py_error + (string \<times> image) list" where
  "downloader_combine_chapters manga_dir =
     (let chapter_files = sort (filter (\<lambda>file. endswith file ''.cbz'') (map fst manga_dir)) in
      if chapter_files = []
      then Inl (Exception ''No chapter files found in the selected manga directory'')
      else downloader_combine_loop manga_dir chapter_files [])"

text \<open>\<^verbatim>\<open>get_chapter_files\<close>, which sorts the chapter archives by their numbers.\<close>

definition chapter_key :: "string \<Rightarrow> int \<times> int" where
  "chapter_key file =
     (case re_match chapter_file_pattern (fst (splitext file)) of
        Some m \<Rightarrow>
          (int_of_str (group m 1),
           (case group_opt m 2 of None \<Rightarrow> 0 | Some d \<Rightarrow> if d \<noteq> [] then int_of_str d else 0))
      | None \<Rightarrow> (0, 0))"

definition get_chapter_files :: "chapter_folder \<Rightarrow> string list" where
  "get_chapter_files manga_dir =
     sort_key chapter_key (filter (\<lambda>file. endswith file ''.cbz'') (map fst manga_dir))"


text \<open>\<^verbatim>\<open>get_downloaded_chapters(output_base)\<close>, from the listing of the folder.\<close>

definition get_downloaded_chapters :: "string list \<Rightarrow> string set" where
  "get_downloaded_chapters listing =
     fold (\<lambda>file downloaded.
             if endswith file ''.cbz'' \<and> \<not> endswith file ''_combined.cbz''
             then (case re_match downloaded_pattern file of
                     Some m \<Rightarrow> insert (group m 1) downloaded
                   | None \<Rightarrow> downloaded)
             else downloaded)
       listing {}"

text \<open>
  The format \<^verbatim>\<open>03.1f\<close>: one decimal, correctly rounded from the binary value, zero-padded
  to three characters; and the title \<^verbatim>\<open>f"Chapter_{float(chapter_number):03.1f}"\<close> under
  which \<^verbatim>\<open>main\<close> stores a chapter with the label \<open>chapter_number\<close>.
\<close>

definition format_03_1f :: "pyfloat \<Rightarrow> string" where
  "format_03_1f x =
     (case x of
        Infinity \<Rightarrow> ''inf''
      | Finite q \<Rightarrow>
          (let t = round_half_even (q * 10)
           in zero_pad 3 (str_int (t div 10) @ ''.'' @ str_int (t mod 10))))"

definition chapter_title :: "string \<Rightarrow> string" where
  "chapter_title chapter_number = ''Chapter_'' @ format_03_1f (float_of_str chapter_number)"

text \<open>
  The labels that the model reads as \<^verbatim>\<open>float\<close> does: digits, with or without a dot and more
  digits after them. \<^verbatim>\<open>float\<close> raises \<^verbatim>\<open>ValueError\<close> for a label that is no number, before
  the skip test of the loop; the loop below is for labels of this form.
\<close>

definition is_numeral :: "string \<Rightarrow> bool" where
  "is_numeral s \<longleftrightarrow>
     takeWhile is_digit s \<noteq> [] \<and>
     list_all is_digit (drop 1 (dropWhile is_digit s)) \<and>
     take 1 (dropWhile is_digit s) \<in> {[], ''.''}"

text \<open>
  The chapters that the skip test of the loop of \<^verbatim>\<open>main\<close> lets through, given the labels
  of the chapter records in order: a chapter is skipped when its label is in
  \<open>downloaded_chapters\<close>.
\<close>

definition chapters_to_download :: "string set \<Rightarrow> string list \<Rightarrow> string list" where
  "chapters_to_download downloaded_chapters chapters =
     filter (\<lambda>chapter_number. chapter_number \<notin> downloaded_chapters) chapters"

text \<open>
  \<^verbatim>\<open>main\<close> of the downloader. What lies outside the program is given by an environment:
  for each call that reaches the network, the disk or the user, whether it raises and what
  it yields. \<open>search_manga\<close> stands for the search and the metadata lookup that come before
  the output folder is named, and yields the sanitized title. \<open>resume_choice\<close> is the
  answer that the prompt accepts. \<open>download_chapter\<close> stands for the steps of one chapter
  up to the point where its statistics are written (the progress bar, \<^verbatim>\<open>download_chapter\<close>,
  \<^verbatim>\<open>create_cbz\<close>, the removal of the image directory, the update of the statistics and the
  opening of \<^verbatim>\<open>download_stats.json\<close>). It gives the number of pages of the chapter when
  all these steps succeed; or the exception that one of them raises, with what the chapter
  has in the output folder by then: whether its image directory is there, and the entries
  of its archive if \<^verbatim>\<open>create_cbz\<close> has opened it. \<open>rmtree\<close> is the removal of the output
  folder in the handler, which on failure has removed the named files only. The labels of
  the chapter records are numerals (\<open>is_numeral\<close>), for which \<^verbatim>\<open>float\<close> does not raise.
\<close>

record environment =
  search_manga :: "py_error + string"
  resume_choice :: string
  save_metadata :: "py_error option"
  download_cover :: "py_error + bool"
  check_chapter_availability :: "py_error + bool"
  get_chapters :: "py_error + string list"
  download_chapter :: "string \<Rightarrow> (py_error \<times> bool \<times> string list option) + nat"
  rmtree :: "(py_error \<times> string list) option"

text \<open>
  The exceptions that \<^verbatim>\<open>except Exception\<close> catches: those of the class \<^verbatim>\<open>Exception\<close>,
  which \<^verbatim>\<open>KeyboardInterrupt\<close> is not.
\<close>

definition is_Exception :: "py_error \<Rightarrow> bool" where
  "is_Exception e \<longleftrightarrow> e \<noteq> KeyboardInterrupt"

definition is_chapter_archive :: "string \<Rightarrow> bool" where
  "is_chapter_archive file \<longleftrightarrow> endswith file ''.cbz'' \<and> \<not> endswith file ''_combined.cbz''"

text \<open>
  \<^verbatim>\<open>create_cbz\<close> for a chapter of \<open>n\<close> pages, which \<^verbatim>\<open>download_chapter\<close> has written as
  \<^verbatim>\<open>000.jpg\<close>, \<^verbatim>\<open>001.jpg\<close> and so on: the sorted pages, then \<^verbatim>\<open>metadata.txt\<close>.
\<close>

definition create_cbz :: "nat \<Rightarrow> string list" where
  "create_cbz n = sort (map (\<lambda>i. format_0d 3 (int i) @ ''.jpg'') [0 ..< n]) @ [''metadata.txt'']"

text \<open>
  The loop over the chapter records, given by their labels. The result is the exception
  raised, if any, and the folder as it is then. A chapter whose label is in
  \<open>downloaded_chapters\<close> is skipped. For the first chapter that is not, either a step
  raises, and the folder has what the chapter had written by then; or the archive of the
  chapter is written and its image directory removed, and then the statistics are saved
  with \<^verbatim>\<open>json.dump(download_stats, f, ...)\<close> while \<^verbatim>\<open>download_stats["scanlation_groups"]\<close>
  is still a \<^verbatim>\<open>set\<close> (it is made a list after the loop only), which raises \<^verbatim>\<open>TypeError\<close>
  in the file \<^verbatim>\<open>download_stats.json\<close> just opened for writing. So the loop goes past
  skipped chapters only, and ends without an exception only when it skips them all.
\<close>

fun download_loop ::
  "environment \<Rightarrow> string set \<Rightarrow> string list \<Rightarrow> chapter_folder \<Rightarrow> py_error option \<times> chapter_folder"
where
  "download_loop env downloaded_chapters [] folder = (None, folder)"
| "download_loop env downloaded_chapters (chapter_number # rest) folder =
     (if chapter_number \<in> downloaded_chapters
      then download_loop env downloaded_chapters rest folder
      else (case download_chapter env chapter_number of
              Inl (e, image_dir_there, archive) \<Rightarrow>
                (let folder1 = (if image_dir_there
                                then AList.update (chapter_title chapter_number) [] folder
                                else folder)
                 in (Some e,
                     (case archive of
                        None \<Rightarrow> folder1
                      | Some entries \<Rightarrow>
                          AList.update (chapter_title chapter_number @ ''.cbz'') entries folder1)))
            | Inr n \<Rightarrow>
                (Some (TypeError ''Object of type set is not JSON serializable''),
                 AList.update ''download_stats.json'' []
                   (AList.update (chapter_title chapter_number @ ''.cbz'') (create_cbz n)
                      folder))))"

text \<open>
  The body of the \<^verbatim>\<open>try\<close> block from \<^verbatim>\<open>get_downloaded_chapters\<close> on, when the output
  folder exists: the exception raised, if any, and the folder then.
\<close>

definition main_in_folder ::
  "environment \<Rightarrow> string \<Rightarrow> chapter_folder \<Rightarrow> py_error option \<times> chapter_folder"
where
  "main_in_folder env safe_title folder0 =
     (let found = get_downloaded_chapters (map fst folder0)
      in if found \<noteq> {} \<and> resume_choice env = ''3'' then (None, folder0)
      else
     (let fresh = (found \<noteq> {} \<and> resume_choice env = ''2'');
          folder1 = (if fresh then filter (\<lambda>item. \<not> is_chapter_archive (fst item)) folder0
                     else folder0);
          downloaded_chapters = (if fresh then {} else found)
      in case save_metadata env of
        Some e \<Rightarrow> (Some e, folder1)
      | None \<Rightarrow>
     (let folder2 = AList.update ''manga_metadata.json'' [] folder1 in
      case (if ''cover.jpg'' \<in> set (map fst folder2) then Inr False else download_cover env) of
        Inl e \<Rightarrow> (Some e, folder2)
      | Inr cover \<Rightarrow>
     (let folder3 = (if cover then AList.update ''cover.jpg'' [] folder2 else folder2) in
      case check_chapter_availability env of
        Inl e \<Rightarrow> (Some e, folder3)
      | Inr False \<Rightarrow> (None, folder3)
      | Inr True \<Rightarrow>
     (case get_chapters env of
        Inl e \<Rightarrow> (Some e, folder3)
      | Inr [] \<Rightarrow> (None, folder3)
      | Inr chapters \<Rightarrow>
     (case download_loop env downloaded_chapters chapters folder3 of
        (Some e, folder4) \<Rightarrow> (Some e, folder4)
      | (None, folder4) \<Rightarrow>
     (let folder5 = AList.update ''download_stats.json'' [] folder4 in
      case downloader_combine_chapters folder5 of
        Inl e \<Rightarrow> (Some e, folder5)
      | Inr combined \<Rightarrow>
          (None,
           filter (\<lambda>item. \<not> is_chapter_archive (fst item))
             (AList.update (safe_title @ ''_combined.cbz'') (map fst combined) folder5)))))))))"

text \<open>
  The whole body of the \<^verbatim>\<open>try\<close> block. The world is the output folder of the manga,
  \<open>None\<close> when there is no such folder; \<^verbatim>\<open>os.makedirs(output_base, exist_ok=True)\<close> makes
  an empty one then. The result is the exception raised, if any, the world then, and
  whether \<^verbatim>\<open>output_base\<close> was bound by then.
\<close>

definition main_body ::
  "environment \<Rightarrow> chapter_folder option \<Rightarrow> py_error option \<times> chapter_folder option \<times> bool"
where
  "main_body env world =
     (case search_manga env of
        Inl e \<Rightarrow> (Some e, world, False)
      | Inr safe_title \<Rightarrow>
          (let folder0 = (case world of None \<Rightarrow> [] | Some files \<Rightarrow> files);
               (raised, folder) = main_in_folder env safe_title folder0
           in (raised, Some folder, True)))"

text \<open>
  \<^verbatim>\<open>main\<close>: the body under its handler \<^verbatim>\<open>except Exception\<close>, which removes the output
  folder when \<^verbatim>\<open>output_base\<close> is bound and the folder exists, prints and drops an
  exception of the removal that is of the class \<^verbatim>\<open>Exception\<close>, and raises the exception
  of the body again. An exception of the body that the handler does not catch leaves the
  folder as it is.
\<close>

definition main :: "environment \<Rightarrow> chapter_folder option \<Rightarrow> py_error option \<times> chapter_folder option" where
  "main env world =
     (case main_body env world of
        (None, world', output_base_bound) \<Rightarrow> (None, world')
      | (Some e, world', output_base_bound) \<Rightarrow>
          if \<not> is_Exception e then (Some e, world')
          else
            (case world' of
               None \<Rightarrow> (Some e, None)
             | Some folder \<Rightarrow>
                 if output_base_bound
                 then (case rmtree env of
                         None \<Rightarrow> (Some e, None)
                       | Some (cleanup_error, removed) \<Rightarrow>
                           (Some (if is_Exception cleanup_error then e else cleanup_error),
                            Some (filter (\<lambda>item. fst item \<notin> set removed) folder)))
                 else (Some e, Some folder)))"
section \<open>Properties of the splitter\<close>

lemma getinfo_namelist:
  assumes "name \<in> set (namelist cbz)"
  shows "\<exists>i. getinfo cbz name = Inr i"
proof -
  from assms obtain i where "i \<in> set (rev cbz)" "filename i = name"
    by (auto simp: namelist_def)
  then have "find (\<lambda>i. filename i = name) (rev cbz) \<noteq> None"
    by (auto simp: find_None_iff)
  then show ?thesis
    by (auto simp: getinfo_def)
qed

text \<open>What holds of the loop state between two iterations.\<close>

definition part_ok :: "zip_archive \<Rightarrow> int \<Rightarrow> string list \<Rightarrow> bool" where
  "part_ok cbz max_size names \<longleftrightarrow>
     part_size cbz names \<le> max_size \<or>
     (\<exists>f. names = [f] \<and> entry_size cbz f > max_size)"

definition split_inv :: "zip_archive \<Rightarrow> int \<Rightarrow> string list \<Rightarrow> split_state \<Rightarrow> bool" where
  "split_inv cbz max_size seen st \<longleftrightarrow>
     concat (map snd (output_files st)) @ current_files st = seen \<and>
     current_size st = part_size cbz (current_files st) \<and>
     (current_files st = [] \<or> part_ok cbz max_size (current_files st)) \<and>
     (\<forall>p \<in> set (output_files st). snd p \<noteq> [] \<and> part_ok cbz max_size (snd p)) \<and>
     (if current_files st = [] then output_files st = []
      else greedy_parts cbz max_size (map snd (output_files st) @ [current_files st]))"

lemma entry_size_nonneg: "0 \<le> entry_size cbz f"
  by (simp add: entry_size_def split: sum.splits)

lemma greedy_parts_grow:
  assumes "greedy_parts cbz max_size (ps @ [c])" and "c \<noteq> []"
  shows "greedy_parts cbz max_size (ps @ [c @ x])"
  using assms by (induction cbz max_size ps rule: greedy_parts.induct) auto

lemma greedy_parts_snoc:
  assumes "greedy_parts cbz max_size (ps @ [c])"
    and "part_size cbz c + entry_size cbz (hd d) > max_size" and "d \<noteq> []"
  shows "greedy_parts cbz max_size (ps @ [c, d])"
  using assms by (induction cbz max_size ps rule: greedy_parts.induct) auto

lemma split_inv_step:
  assumes inv: "split_inv cbz max_size seen st"
    and info: "getinfo cbz f = Inr i"
  shows "split_inv cbz max_size (seen @ [f])
           ((if current_size st + int (file_size i) > max_size \<and> current_files st \<noteq> []
             then flush_part output_dir base_name st else st)
            \<lparr>current_files :=
               current_files (if current_size st + int (file_size i) > max_size \<and> current_files st \<noteq> []
                              then flush_part output_dir base_name st else st) @ [f],
             current_size :=
               current_size (if current_size st + int (file_size i) > max_size \<and> current_files st \<noteq> []
                             then flush_part output_dir base_name st else st) + int (file_size i)\<rparr>)"
proof -
  have sz: "entry_size cbz f = int (file_size i)"
    using info by (simp add: entry_size_def)
  show ?thesis
  proof (cases "current_size st + int (file_size i) > max_size \<and> current_files st \<noteq> []")
    case True
    then have "greedy_parts cbz max_size (map snd (output_files st) @ [current_files st, [f]])"
      using inv sz by (intro greedy_parts_snoc) (auto simp: split_inv_def)
    with True show ?thesis
      using inv sz
      by (auto simp: split_inv_def flush_part_def part_ok_def part_size_def)
  next
    case False
    show ?thesis
    proof (cases "current_files st = []")
      case True
      then show ?thesis
        using inv sz False
        by (auto simp: split_inv_def part_ok_def part_size_def)
    next
      case nonempty: False
      with False have le: "current_size st + int (file_size i) \<le> max_size" by simp
      have "greedy_parts cbz max_size (map snd (output_files st) @ [current_files st @ [f]])"
        using inv nonempty by (intro greedy_parts_grow) (auto simp: split_inv_def)
      with le show ?thesis
        using inv sz False nonempty
        by (auto simp: split_inv_def part_ok_def part_size_def)
    qed
  qed
qed

lemma split_loop_inv:
  assumes "split_inv cbz max_size seen st"
    and "set files \<subseteq> set (namelist cbz)"
  shows "\<exists>st'. split_loop cbz output_dir base_name max_size files st = Inr st' \<and>
               split_inv cbz max_size (seen @ files) st'"
  using assms
proof (induction files arbitrary: seen st)
  case Nil
  then show ?case by simp
next
  case (Cons f files)
  from Cons.prems(2) obtain i where info: "getinfo cbz f = Inr i"
    using getinfo_namelist [of f cbz] by auto
  let ?st1 = "if current_size st + int (file_size i) > max_size \<and> current_files st \<noteq> []
              then flush_part output_dir base_name st else st"
  let ?st2 = "?st1\<lparr>current_files := current_files ?st1 @ [f],
                   current_size := current_size ?st1 + int (file_size i)\<rparr>"
  have "split_inv cbz max_size (seen @ [f]) ?st2"
    using split_inv_step [OF Cons.prems(1) info] .
  moreover have "set files \<subseteq> set (namelist cbz)"
    using Cons.prems(2) by simp
  ultimately obtain st' where
    "split_loop cbz output_dir base_name max_size files ?st2 = Inr st'"
    "split_inv cbz max_size ((seen @ [f]) @ files) st'"
    using Cons.IH by blast
  then show ?case
    using info by (simp add: Let_def)
qed

text \<open>
  C1. For every source archive and every ceiling (positive or not), \<^verbatim>\<open>split_cbz\<close> returns
  normally; the entry lists of its output parts, concatenated in part order, are the sorted
  entry list of the source, so nothing is left out, doubled or reordered; the uncompressed
  sizes of a part sum to at most the ceiling unless the part is a single entry that is
  itself larger than the ceiling; and the packing is greedy: a part was closed only where
  the next entry would have passed the ceiling, and never empty.
\<close>

theorem split_cbz_partition:
  "\<exists>parts. split_cbz cbz base_name output_dir max_size = Inr parts \<and>
     concat (map snd parts) = sort (namelist cbz) \<and>
     (\<forall>p \<in> set parts.
        part_size cbz (snd p) \<le> max_size \<or>
        (\<exists>f. snd p = [f] \<and> entry_size cbz f > max_size)) \<and>
     greedy_parts cbz max_size (map snd parts)"
proof -
  let ?st0 = "\<lparr>current_part = 1, current_size = 0, current_files = [], output_files = []\<rparr>"
  have "split_inv cbz max_size [] ?st0"
    by (simp add: split_inv_def part_size_def)
  moreover have "set (sort (namelist cbz)) \<subseteq> set (namelist cbz)"
    by simp
  ultimately obtain st where
    run: "split_loop cbz output_dir base_name max_size (sort (namelist cbz)) ?st0 = Inr st"
    and inv: "split_inv cbz max_size ([] @ sort (namelist cbz)) st"
    using split_loop_inv by blast
  show ?thesis
  proof (cases "current_files st = []")
    case True
    then show ?thesis
      using run inv by (auto simp: split_cbz_def split_inv_def part_ok_def)
  next
    case False
    then show ?thesis
      using run inv by (auto simp: split_cbz_def split_inv_def part_ok_def flush_part_def)
  qed
qed

theorem split_cbz_partition_witness:
  "split_cbz
     [\<lparr>filename = ''003.jpg'', file_size = 12\<rparr>, \<lparr>filename = ''001.jpg'', file_size = 4\<rparr>,
      \<lparr>filename = ''002.jpg'', file_size = 5\<rparr>] ''manga'' ''out'' 10 =
     Inr [(''out/manga_part1.cbz'', [''001.jpg'', ''002.jpg'']),
          (''out/manga_part2.cbz'', [''003.jpg''])] \<and>
   (\<exists>parts.
      split_cbz
        [\<lparr>filename = ''003.jpg'', file_size = 12\<rparr>, \<lparr>filename = ''001.jpg'', file_size = 4\<rparr>,
         \<lparr>filename = ''002.jpg'', file_size = 5\<rparr>] ''manga'' ''out'' 10 = Inr parts \<and>
      concat (map snd parts) = [''001.jpg'', ''002.jpg'', ''003.jpg''] \<and>
      greedy_parts
        [\<lparr>filename = ''003.jpg'', file_size = 12\<rparr>, \<lparr>filename = ''001.jpg'', file_size = 4\<rparr>,
         \<lparr>filename = ''002.jpg'', file_size = 5\<rparr>] 10 (map snd parts) \<and>
      (\<forall>p \<in> set parts.
         part_size
           [\<lparr>filename = ''003.jpg'', file_size = 12\<rparr>, \<lparr>filename = ''001.jpg'', file_size = 4\<rparr>,
            \<lparr>filename = ''002.jpg'', file_size = 5\<rparr>] (snd p) \<le> 10 \<or>
         (\<exists>f. snd p = [f] \<and>
            entry_size
              [\<lparr>filename = ''003.jpg'', file_size = 12\<rparr>, \<lparr>filename = ''001.jpg'', file_size = 4\<rparr>,
               \<lparr>filename = ''002.jpg'', file_size = 5\<rparr>] f > 10)))"
proof -
  let ?cbz = "[\<lparr>filename = ''003.jpg'', file_size = 12\<rparr>, \<lparr>filename = ''001.jpg'', file_size = 4\<rparr>,
               \<lparr>filename = ''002.jpg'', file_size = 5\<rparr>]"
  have run: "split_cbz ?cbz ''manga'' ''out'' 10 =
      Inr [(''out/manga_part1.cbz'', [''001.jpg'', ''002.jpg'']),
           (''out/manga_part2.cbz'', [''003.jpg''])]"
    by code_simp
  have sorted_names: "sort (namelist ?cbz) = [''001.jpg'', ''002.jpg'', ''003.jpg'']"
    by code_simp
  from split_cbz_partition [of ?cbz "''manga''" "''out''" 10] run sorted_names
  show ?thesis by simp
qed

lemma foldl_file_size:
  "foldl (\<lambda>total_size file_info. total_size + int (file_size file_info)) a cbz =
     a + (\<Sum>i\<leftarrow>cbz. int (file_size i))"
  by (induction cbz arbitrary: a) simp_all

lemma get_cbz_size_sum: "get_cbz_size cbz = (\<Sum>i\<leftarrow>cbz. int (file_size i))"
  by (simp add: get_cbz_size_def foldl_file_size)

text \<open>
  C9. When the uncompressed sizes of the entries of the selected archive sum to at most the
  ceiling, \<^verbatim>\<open>main\<close> reports that no splitting is needed and makes no output archive.
\<close>

theorem splitter_main_no_action:
  assumes "(\<Sum>i\<leftarrow>selected_file. int (file_size i)) \<le> max_size_bytes"
  shows "splitter_main selected_file base_name output_dir max_size_bytes =
           Inr (No_splitting_needed, [])"
  using assms by (simp add: splitter_main_def get_cbz_size_sum)

theorem splitter_main_no_action_witness:
  "(\<Sum>i\<leftarrow>[\<lparr>filename = ''003.jpg'', file_size = 12\<rparr>, \<lparr>filename = ''001.jpg'', file_size = 4\<rparr>].
       int (file_size i)) \<le> 16 \<and>
   splitter_main [\<lparr>filename = ''003.jpg'', file_size = 12\<rparr>, \<lparr>filename = ''001.jpg'', file_size = 4\<rparr>]
     ''manga'' ''out'' 16 = Inr (No_splitting_needed, [])"
proof -
  have h: "(\<Sum>i\<leftarrow>[\<lparr>filename = ''003.jpg'', file_size = 12\<rparr>,
                   \<lparr>filename = ''001.jpg'', file_size = 4\<rparr>]. int (file_size i)) \<le> 16"
    by simp
  from h splitter_main_no_action [OF h, of "''manga''" "''out''"] show ?thesis by blast
qed

section \<open>Decimal digit strings and their order\<close>

lemma digit_char_simps:
  "digit_char 0 = CHR ''0''" "digit_char 1 = CHR ''1''" "digit_char 2 = CHR ''2''"
  "digit_char 3 = CHR ''3''" "digit_char 4 = CHR ''4''" "digit_char 5 = CHR ''5''"
  "digit_char 6 = CHR ''6''" "digit_char 7 = CHR ''7''" "digit_char 8 = CHR ''8''"
  "digit_char 9 = CHR ''9''"
  by code_simp+

lemma digit_cases:
  assumes "0 \<le> c" "c < 10"
  shows "c = 0 \<or> c = 1 \<or> c = 2 \<or> c = 3 \<or> c = 4 \<or> c = 5 \<or> c = 6 \<or> c = 7 \<or> c = 8 \<or> c = (9::int)"
  using assms by arith

lemma digit_char_less:
  assumes "0 \<le> c" "c < d" "d < 10"
  shows "digit_char c < digit_char d"
proof -
  have "c = 0 \<or> c = 1 \<or> c = 2 \<or> c = 3 \<or> c = 4 \<or> c = 5 \<or> c = 6 \<or> c = 7 \<or> c = 8 \<or> c = 9"
    using assms by (intro digit_cases) auto
  moreover
  have "d = 0 \<or> d = 1 \<or> d = 2 \<or> d = 3 \<or> d = 4 \<or> d = 5 \<or> d = 6 \<or> d = 7 \<or> d = 8 \<or> d = 9"
    using assms by (intro digit_cases) auto
  ultimately show ?thesis
    using \<open>c < d\<close> by (elim disjE) (simp_all add: digit_char_simps)
qed

lemma append_less_same_length:
  fixes xs ys :: "'a::linorder list"
  assumes "xs < ys" "length xs = length ys"
  shows "xs @ u < ys @ v"
  using assms lexord_sufI [of xs ys "{(a, b). a < b}" u v]
  by (simp add: list_less_def)

lemma append_less_same_prefix:
  fixes xs :: "'a::linorder list"
  shows "xs @ u < xs @ v \<longleftrightarrow> u < v"
  by (simp add: list_less_def lexord_same_pref_iff)

lemma length_fixed_digits [simp]: "length (fixed_digits w n) = w"
  by (induction w arbitrary: n) simp_all

lemma fixed_digits_zero: "fixed_digits w 0 = replicate w CHR ''0''"
  by (induction w) (simp_all add: digit_char_simps replicate_append_same)

lemma fixed_digits_less:
  assumes "0 \<le> a" "a < b" "b < 10 ^ w"
  shows "fixed_digits w a < fixed_digits w b"
  using assms
proof (induction w arbitrary: a b)
  case 0
  then show ?case by simp
next
  case (Suc w)
  have le: "a div 10 \<le> b div 10"
    using Suc.prems by (simp add: zdiv_mono1)
  show ?case
  proof (cases "a div 10 < b div 10")
    case True
    have "0 \<le> a div 10" using Suc.prems by simp
    moreover have "b div 10 < 10 ^ w" using Suc.prems by auto
    ultimately have "fixed_digits w (a div 10) < fixed_digits w (b div 10)"
      using True Suc.IH by blast
    then show ?thesis
      by (simp add: append_less_same_length)
  next
    case False
    with le have eq: "a div 10 = b div 10" by simp
    have "a mod 10 < b mod 10"
      using Suc.prems(2) eq by (metis mult_div_mod_eq add_less_cancel_left)
    moreover have "0 \<le> a mod 10" "b mod 10 < 10" by simp_all
    ultimately have "digit_char (a mod 10) < digit_char (b mod 10)"
      by (rule_tac digit_char_less)
    then show ?thesis
      by (simp add: eq append_less_same_prefix)
  qed
qed

lemma zero_pad_str_digits:
  assumes "0 \<le> n" "n < 10 ^ w" "0 < w"
  shows "zero_pad w (str_digits n) = fixed_digits w n"
  using assms
proof (induction w arbitrary: n)
  case 0
  then show ?case by simp
next
  case (Suc w)
  show ?case
  proof (cases "n < 10")
    case True
    then have "n div 10 = 0" "n mod 10 = n" using Suc.prems by simp_all
    then show ?thesis
      using True by (simp add: str_digits.simps [of n] zero_pad_def fixed_digits_zero)
  next
    case False
    then have w: "0 < w" using Suc.prems by (cases w) auto
    have "0 \<le> n div 10" "n div 10 < 10 ^ w" using Suc.prems by auto
    then have IH: "zero_pad w (str_digits (n div 10)) = fixed_digits w (n div 10)"
      using Suc.IH w by blast
    have "zero_pad (Suc w) (str_digits n) =
          zero_pad w (str_digits (n div 10)) @ [digit_char (n mod 10)]"
      using False by (simp add: str_digits.simps [of n] zero_pad_def)
    with IH show ?thesis by simp
  qed
qed

lemma format_0d_fixed:
  assumes "0 \<le> n" "n < 10 ^ w" "0 < w"
  shows "format_0d w n = fixed_digits w n"
  using assms by (simp add: format_0d_def zero_pad_str_digits)

section \<open>The binary exponent\<close>

text \<open>\<open>floor_log2 q\<close> is the exponent \<open>e\<close> with \<open>2\<close> to the \<open>e\<close> at most \<open>q\<close> and \<open>q\<close> below \<open>2\<close> to the \<open>e + 1\<close>.\<close>

lemma pow2_powi: "pow2 e = 2 powi e"
  by (simp add: pow2_def power_int_def power_one_over)

lemma bitlen_powi_bounds:
  assumes "0 < a"
  shows "(2::rat) powi (bitlen a - 1) \<le> of_int a" and "of_int a < (2::rat) powi bitlen a"
proof -
  from assms have b: "1 \<le> bitlen a" by (auto simp: bitlen_alt_def)
  from bitlen_bounds [OF assms] have "(2::int) ^ nat (bitlen a - 1) \<le> a" "a < 2 ^ nat (bitlen a)"
    by simp_all
  then have "(of_int (2 ^ nat (bitlen a - 1)) :: rat) \<le> of_int a" "(of_int a :: rat) < of_int (2 ^ nat (bitlen a))"
    by (simp_all only: of_int_le_iff of_int_less_iff)
  with b show "(2::rat) powi (bitlen a - 1) \<le> of_int a" and "of_int a < (2::rat) powi bitlen a"
    by (simp_all add: power_int_def)
qed

lemma floor_log2_bounds:
  assumes "0 < q"
  shows "pow2 (floor_log2 q) \<le> q \<and> q < pow2 (floor_log2 q + 1)"
proof -
  obtain a b where ab: "quotient_of q = (a, b)" by (cases "quotient_of q")
  then have b: "0 < b" by (rule quotient_of_denom_pos)
  have q: "q = of_int a / of_int b" using ab by (rule quotient_of_div)
  with assms b have a: "0 < a" by (simp add: zero_less_divide_iff)
  let ?d = "bitlen a - bitlen b"
  have rb: "(0::rat) < of_int b" using b by simp
  have lower: "pow2 (?d - 1) < q"
  proof -
    have "(2::rat) powi (?d - 1) = 2 powi (bitlen a - 1) / 2 powi bitlen b"
      by (simp add: power_int_diff [symmetric] algebra_simps)
    also have "\<dots> \<le> of_int a / 2 powi bitlen b"
      using bitlen_powi_bounds(1) [OF a] by (simp add: divide_right_mono)
    also have "\<dots> < of_int a / of_int b"
      using bitlen_powi_bounds(2) [OF b] a rb by (intro divide_strict_left_mono) simp_all
    finally show ?thesis by (simp add: pow2_powi q)
  qed
  have upper: "q < pow2 (?d + 1)"
  proof -
    have "of_int a / of_int b < (2::rat) powi bitlen a / of_int b"
      using bitlen_powi_bounds(2) [OF a] rb by (simp add: divide_strict_right_mono)
    also have "\<dots> \<le> 2 powi bitlen a / 2 powi (bitlen b - 1)"
      using bitlen_powi_bounds(1) [OF b] rb by (intro divide_left_mono) simp_all
    also have "\<dots> = 2 powi (?d + 1)"
      by (simp add: power_int_diff [symmetric] algebra_simps)
    finally show ?thesis by (simp add: pow2_powi q)
  qed
  show ?thesis
  proof (cases "pow2 ?d \<le> q")
    case True
    then show ?thesis using upper ab by (simp add: floor_log2_def)
  next
    case False
    then show ?thesis using lower ab by (simp add: floor_log2_def less_imp_le)
  qed
qed

section \<open>Properties of the matcher\<close>

text \<open>
  A successful match is the continuation's success on some suffix of the input, and by then
  every group outside a \<^verbatim>\<open>?\<close> is set.
\<close>

lemma star_match_cont:
  "star_match c s k = Some x \<Longrightarrow> \<exists>s'. suffix s' s \<and> k s' = Some x"
proof (induction s)
  case Nil
  then show ?case by auto
next
  case (Cons a s)
  show ?case
  proof (cases "in_cls c a \<and> star_match c s k \<noteq> None")
    case True
    then obtain y where y: "star_match c s k = Some y" by auto
    with True Cons.prems have "y = x" by simp
    with y Cons.IH obtain s' where "suffix s' s" "k s' = Some x" by auto
    then show ?thesis by (auto intro: suffix_ConsI)
  next
    case False
    with Cons.prems have "k (a # s) = Some x" by (auto split: if_splits option.splits)
    then show ?thesis by auto
  qed
qed

lemma rmatch_cont:
  "rmatch r s g k = Some x \<Longrightarrow>
     \<exists>s' g'. suffix s' s \<and> fst ` set g \<union> sure_groups r \<subseteq> fst ` set g' \<and> k s' g' = Some x"
proof (induction r arbitrary: s g k)
  case Eps
  then show ?case by auto
next
  case (Atom c)
  then show ?case
    by (cases s) (auto split: if_splits intro: suffix_ConsI)
next
  case (Star c)
  then show ?case
    using star_match_cont [of c s "\<lambda>s'. k s' g" x] by auto
next
  case (Plus c)
  then obtain a t where s: "s = a # t" and "star_match c t (\<lambda>s'. k s' g) = Some x"
    by (cases s) (auto split: if_splits)
  then show ?case
    using star_match_cont [of c t "\<lambda>s'. k s' g" x] by (auto intro: suffix_ConsI)
next
  case (Opt r)
  show ?case
  proof (cases "rmatch r s g k")
    case None
    with Opt.prems show ?thesis by auto
  next
    case (Some y)
    with Opt.prems have "rmatch r s g k = Some x" by simp
    from Opt.IH [OF this] show ?thesis by auto
  qed
next
  case (Seq r1 r2)
  from Seq.prems have "rmatch r1 s g (\<lambda>s' g'. rmatch r2 s' g' k) = Some x" by simp
  from Seq.IH(1) [OF this] obtain s1 g1 where
    1: "suffix s1 s" "fst ` set g \<union> sure_groups r1 \<subseteq> fst ` set g1" "rmatch r2 s1 g1 k = Some x"
    by blast
  from Seq.IH(2) [OF 1(3)] obtain s2 g2 where
    2: "suffix s2 s1" "fst ` set g1 \<union> sure_groups r2 \<subseteq> fst ` set g2" "k s2 g2 = Some x"
    by blast
  from 1 2 have "suffix s2 s" by (auto intro: suffix_order.trans)
  moreover from 1(2) 2(2) have "fst ` set g \<union> sure_groups (Seq r1 r2) \<subseteq> fst ` set g2"
    unfolding sure_groups.simps by blast
  ultimately show ?case using 2(3) by blast
next
  case (Group n r)
  from Group.prems
  have "rmatch r s g (\<lambda>s' g'. k s' ((n, take (length s - length s') s) # g')) = Some x" by simp
  from Group.IH [OF this] obtain s1 g1 where
    1: "suffix s1 s" "fst ` set g \<union> sure_groups r \<subseteq> fst ` set g1"
       "k s1 ((n, take (length s - length s1) s) # g1) = Some x"
    by blast
  have "fst ` set g \<union> sure_groups (Group n r) \<subseteq> fst ` set ((n, take (length s - length s1) s) # g1)"
    using 1(2) by auto
  with 1 show ?case by blast
qed

lemma re_match_sure_groups:
  assumes "re_match r s = Some m"
  shows "sure_groups r \<subseteq> fst ` set m"
  using rmatch_cont [of r s "[]" "\<lambda>s' g. Some g" m] assms
  by (auto simp: re_match_def)

lemma re_search_sure_groups:
  "re_search r s = Some m \<Longrightarrow> sure_groups r \<subseteq> fst ` set m"
  by (induction s) (auto split: option.splits dest: re_match_sure_groups)

lemma group_of_sure_group:
  assumes "re_search r s = Some m" and "n \<in> sure_groups r"
  shows "group_opt m n = Some (group m n)"
proof -
  from assms have "n \<in> fst ` set m"
    using re_search_sure_groups by blast
  then have "map_of m n \<noteq> None"
    by (simp add: map_of_eq_None_iff)
  then show ?thesis
    by (auto simp: group_opt_def group_def)
qed

text \<open>Whether a match succeeds does not depend on the groups collected before.\<close>

lemma star_match_None_cong:
  assumes "\<And>s'. k s' = None \<longleftrightarrow> k' s' = None"
  shows "star_match c s k = None \<longleftrightarrow> star_match c s k' = None"
  using assms by (induction s) (auto split: option.splits)

lemma rmatch_None_cong:
  assumes "\<And>s' g1 g2. k s' g1 = None \<longleftrightarrow> k' s' g2 = None"
  shows "rmatch r s g k = None \<longleftrightarrow> rmatch r s g' k' = None"
  using assms
proof (induction r arbitrary: s g g' k k')
  case (Star c)
  show ?case using star_match_None_cong [of "\<lambda>s'. k s' g" "\<lambda>s'. k' s' g'"] Star by simp
next
  case (Plus c)
  show ?case using star_match_None_cong [of "\<lambda>s'. k s' g" "\<lambda>s'. k' s' g'"] Plus
    by (simp split: list.splits)
next
  case (Opt r)
  from Opt.IH [of k k' s g g'] Opt.prems Opt.prems [of s g g'] show ?case
    by (auto split: option.splits)
next
  case (Seq r1 r2)
  show ?case
    unfolding rmatch.simps
    by (rule Seq.IH(1)) (rule Seq.IH(2), rule Seq.prems)
next
  case (Group n r)
  show ?case
    unfolding rmatch.simps
    by (rule Group.IH) (rule Group.prems)
qed (auto split: list.splits)

lemma re_search_None_iff:
  "re_search r s = None \<longleftrightarrow> (\<forall>t. suffix t s \<longrightarrow> re_match r t = None)"
  by (induction s) (auto simp: suffix_Cons split: option.splits)

lemma rmatch_seqs_append:
  "rmatch (seqs (xs @ ys)) s g k = rmatch (seqs xs) s g (\<lambda>s' g'. rmatch (seqs ys) s' g' k)"
  by (induction xs arbitrary: s g k) simp_all

text \<open>Where a pattern with a prefix matches, the pattern without it matches further right.\<close>

lemma re_match_seqs_append:
  assumes "re_match (seqs (xs @ ys)) s \<noteq> None"
  shows "\<exists>t. suffix t s \<and> re_match (seqs ys) t \<noteq> None"
proof -
  from assms obtain m where
    "rmatch (seqs xs) s [] (\<lambda>s' g'. rmatch (seqs ys) s' g' (\<lambda>s' g. Some g)) = Some m"
    by (auto simp: re_match_def rmatch_seqs_append)
  from rmatch_cont [OF this] obtain t g' where
    t: "suffix t s" "rmatch (seqs ys) t g' (\<lambda>s' g. Some g) = Some m"
    by blast
  have "rmatch (seqs ys) t g' (\<lambda>s' g. Some g) = None \<longleftrightarrow>
        rmatch (seqs ys) t [] (\<lambda>s' g. Some g) = None"
    by (rule rmatch_None_cong) simp
  with t show ?thesis by (auto simp: re_match_def)
qed

lemma re_search_seqs_append:
  assumes "re_search (seqs ys) s = None"
  shows "re_search (seqs (xs @ ys)) s = None"
proof (rule ccontr)
  assume "re_search (seqs (xs @ ys)) s \<noteq> None"
  then obtain t where t: "suffix t s" "re_match (seqs (xs @ ys)) t \<noteq> None"
    by (auto simp: re_search_None_iff)
  from re_match_seqs_append [OF t(2)] obtain t' where
    "suffix t' t" "re_match (seqs ys) t' \<noteq> None" by blast
  with t(1) have "suffix t' s" "re_match (seqs ys) t' \<noteq> None"
    by (auto intro: suffix_order.trans)
  with assms show False by (auto simp: re_search_None_iff)
qed

section \<open>Properties of the chapter-number extractor\<close>

lemma pattern3_needs_pattern1:
  "re_search pattern1 s = None \<Longrightarrow> re_search pattern3 s = None"
  unfolding pattern1_def pattern3_def
  using re_search_seqs_append
    [of ch_items s "[Atom (OneOf ''Vv'')] @ lit ''ol.'' @ [Plus Digit, Star Space]"]
  by simp

text \<open>
  C4. The extractor is a function of the name alone. It tries its five patterns in the
  order 1 to 5 and returns the value of the first one that is found in the name
  (\<open>first_match\<close> over \<open>chapter_rules\<close>); on the documented names it returns 11.0, 46.0, 3.0,
  5041.0 and 6000.0; and a name in which none of the five patterns is found gives \<open>None\<close>.
\<close>

theorem extract_chapter_number_rules:
  "extract_chapter_number ''Ch.11'' = Some (Finite 11) \<and>
   extract_chapter_number ''Chapter 46'' = Some (Finite 46) \<and>
   extract_chapter_number ''Vol.01 Ch.003'' = Some (Finite 3) \<and>
   extract_chapter_number ''Vol.5 Floor 41'' = Some (Finite 5041) \<and>
   extract_chapter_number ''Vol.5 Extra'' = Some (Finite 6000) \<and>
   extract_chapter_number s = first_match chapter_rules s \<and>
   ((\<forall>rule \<in> set chapter_rules. re_search (fst rule) s = None) \<longrightarrow>
      extract_chapter_number s = None)"
proof -
  have e1: "extract_chapter_number ''Ch.11'' = Some (Finite 11)" by code_simp
  have e2: "extract_chapter_number ''Chapter 46'' = Some (Finite 46)" by code_simp
  have e3: "extract_chapter_number ''Vol.01 Ch.003'' = Some (Finite 3)" by code_simp
  have e4: "extract_chapter_number ''Vol.5 Floor 41'' = Some (Finite 5041)" by code_simp
  have e5: "extract_chapter_number ''Vol.5 Extra'' = Some (Finite 6000)" by code_simp
  have order: "extract_chapter_number s = first_match chapter_rules s"
    by (simp add: extract_chapter_number_def chapter_rules_def split: option.splits)
  have none: "(\<forall>rule \<in> set chapter_rules. re_search (fst rule) s = None) \<longrightarrow>
      extract_chapter_number s = None"
    by (simp add: extract_chapter_number_def chapter_rules_def)
  from e1 e2 e3 e4 e5 order none show ?thesis by blast
qed

theorem extract_chapter_number_rules_witness:
  "re_search pattern1 ''Prologue'' = None \<and>
   re_search pattern2 ''Prologue'' = None \<and>
   re_search pattern3 ''Prologue'' = None \<and>
   re_search pattern4 ''Prologue'' = None \<and>
   re_search pattern5 ''Prologue'' = None \<and>
   extract_chapter_number ''Prologue'' = None \<and>
   first_match chapter_rules ''Prologue'' = None"
proof -
  have 1: "re_search pattern1 ''Prologue'' = None" by code_simp
  have 2: "re_search pattern2 ''Prologue'' = None" by code_simp
  have 3: "re_search pattern3 ''Prologue'' = None" by code_simp
  have 4: "re_search pattern4 ''Prologue'' = None" by code_simp
  have 5: "re_search pattern5 ''Prologue'' = None" by code_simp
  from 1 2 3 4 5
  have h: "\<forall>rule \<in> set chapter_rules. re_search (fst rule) ''Prologue'' = None"
    by (simp add: chapter_rules_def del: re_search.simps)
  with extract_chapter_number_rules [of "''Prologue''"]
  have "extract_chapter_number ''Prologue'' = None"
    and "first_match chapter_rules ''Prologue'' = None"
    by (auto simp del: re_search.simps)
  with 1 2 3 4 5 show ?thesis by blast
qed

lemma pattern_groups:
  "1 \<in> sure_groups pattern1" "1 \<in> sure_groups pattern2" "1 \<in> sure_groups pattern3"
  "1 \<in> sure_groups pattern4" "2 \<in> sure_groups pattern4" "1 \<in> sure_groups pattern5"
  by (simp_all add: pattern1_def pattern2_def pattern3_def pattern4_def pattern5_def
        ch_items_def number_group_def lit_def)

text \<open>
  C10. Rule 3 is never reached: pattern 3 ends with pattern 1, so a name in which pattern 3
  is found has pattern 1 in it as well, and rule 1 has returned before. The extractor
  without rule 3 returns the same result on every name.
\<close>

theorem rule3_unreachable:
  "extract_chapter_number_without_rule3 dirname = extract_chapter_number dirname \<and>
   (re_search pattern3 dirname \<noteq> None \<longrightarrow> re_search pattern1 dirname \<noteq> None)"
  using pattern3_needs_pattern1 [of dirname]
  by (auto simp add: extract_chapter_number_without_rule3_def extract_chapter_number_def
        simp del: re_search.simps split: option.splits)

theorem rule3_unreachable_witness:
  "re_search pattern3 ''Vol.01 Ch.003'' = Some [(1, ''003'')] \<and>
   re_search pattern1 ''Vol.01 Ch.003'' = Some [(1, ''003'')] \<and>
   extract_chapter_number_without_rule3 ''Vol.01 Ch.003'' = Some (Finite 3)"
proof -
  have 3: "re_search pattern3 ''Vol.01 Ch.003'' = Some [(1, ''003'')]" by code_simp
  have 1: "re_search pattern1 ''Vol.01 Ch.003'' = Some [(1, ''003'')]" by code_simp
  have "extract_chapter_number ''Vol.01 Ch.003'' = Some (Finite 3)" by code_simp
  with rule3_unreachable [of "''Vol.01 Ch.003''"]
  have "extract_chapter_number_without_rule3 ''Vol.01 Ch.003'' = Some (Finite 3)"
    by (simp del: re_search.simps)
  with 3 1 show ?thesis by blast
qed

section \<open>Properties of the directory combiner\<close>

text \<open>
  C7, as the code has it. For whole-number chapter keys \<open>m\<close> and \<open>n\<close> from 0 up to, not
  including, 10000, the numeric order of the keys agrees with the order of their 4-digit
  forms as strings: when \<open>m\<close> is below \<open>n\<close>, the form of \<open>m\<close> comes before the form of \<open>n\<close>,
  and different keys have different forms.
\<close>

theorem padded_order_of_whole_keys:
  assumes "0 \<le> m" "m < 10000" "0 \<le> n" "n < 10000"
  shows "\<exists>s t. chapter_num_str (Finite (of_int m)) = Inr s \<and>
           chapter_num_str (Finite (of_int n)) = Inr t \<and>
           (m < n \<longrightarrow> s < t) \<and> (m \<noteq> n \<longrightarrow> s \<noteq> t)"
proof -
  have range: "m < 10 ^ 4" "n < 10 ^ 4"
    using assms by simp_all
  have s: "chapter_num_str (Finite (of_int m)) = Inr (fixed_digits 4 m)"
    using assms range by (simp add: chapter_num_str_def int_of_float_def format_0d_fixed)
  have t: "chapter_num_str (Finite (of_int n)) = Inr (fixed_digits 4 n)"
    using assms range by (simp add: chapter_num_str_def int_of_float_def format_0d_fixed)
  have lt: "fixed_digits 4 a < fixed_digits 4 b" if "0 \<le> a" "a < b" "b < 10 ^ 4" for a b
    using that by (rule fixed_digits_less)
  have "m < n \<longrightarrow> fixed_digits 4 m < fixed_digits 4 n"
    using lt assms(1) range by blast
  moreover have "m \<noteq> n \<longrightarrow> fixed_digits 4 m \<noteq> fixed_digits 4 n"
    using lt [of m n] lt [of n m] assms(1,3) range
    by (metis less_irrefl linorder_neqE_linordered_idom)
  ultimately show ?thesis using s t by blast
qed

theorem padded_order_of_whole_keys_witness:
  "(0::int) \<le> 5 \<and> (5::int) < 10000 \<and> (0::int) \<le> 78 \<and> (78::int) < 10000 \<and> (5::int) < 78 \<and>
   extract_chapter_number ''Ch.5'' = Some (Finite (of_int 5)) \<and>
   extract_chapter_number ''Ch.78'' = Some (Finite (of_int 78)) \<and>
   chapter_num_str (Finite (of_int 5)) = Inr ''0005'' \<and>
   chapter_num_str (Finite (of_int 78)) = Inr ''0078'' \<and>
   (''0005'' :: string) < ''0078''"
proof -
  have h: "(0::int) \<le> 5" "(5::int) < 10000" "(0::int) \<le> 78" "(78::int) < 10000"
    by simp_all
  have lt: "(5::int) < 78" by simp
  have e5: "extract_chapter_number ''Ch.5'' = Some (Finite 5)" by code_simp
  have e78: "extract_chapter_number ''Ch.78'' = Some (Finite 78)" by code_simp
  have s: "chapter_num_str (Finite 5) = Inr ''0005''" by code_simp
  have t: "chapter_num_str (Finite 78) = Inr ''0078''" by code_simp
  from padded_order_of_whole_keys [OF h] s t lt have "(''0005'' :: string) < ''0078''"
    by auto
  with h lt e5 e78 s t show ?thesis by simp
qed

text \<open>
  C7 as stated fails at these keys. The keys 5.0 and 5.5 of the names \<^verbatim>\<open>Ch.5\<close> and
  \<^verbatim>\<open>Ch.5.5\<close> differ and share the form \<^verbatim>\<open>0005\<close>. The keys 9005.0 and 10005.0 of
  \<^verbatim>\<open>Vol.9 Floor 5\<close> and \<^verbatim>\<open>Vol.10 Floor 5\<close> get the forms \<^verbatim>\<open>9005\<close> and \<^verbatim>\<open>10005\<close>, and
  the form of the larger key comes first in the order of strings.
\<close>

theorem padded_order_counterexample:
  "extract_chapter_number ''Ch.5'' = Some (Finite 5) \<and>
   extract_chapter_number ''Ch.5.5'' = Some (Finite (11 / 2)) \<and>
   Finite 5 < Finite (11 / 2) \<and>
   chapter_num_str (Finite 5) = Inr ''0005'' \<and>
   chapter_num_str (Finite (11 / 2)) = Inr ''0005'' \<and>
   extract_chapter_number ''Vol.9 Floor 5'' = Some (Finite 9005) \<and>
   extract_chapter_number ''Vol.10 Floor 5'' = Some (Finite 10005) \<and>
   Finite 9005 < Finite 10005 \<and>
   chapter_num_str (Finite 9005) = Inr ''9005'' \<and>
   chapter_num_str (Finite 10005) = Inr ''10005'' \<and>
   (''10005'' :: string) < ''9005''"
proof -
  have "extract_chapter_number ''Ch.5'' = Some (Finite 5)" by code_simp
  moreover have "extract_chapter_number ''Ch.5.5'' = Some (Finite (11 / 2))" by code_simp
  moreover have "Finite 5 < Finite (11 / 2)" by (simp add: less_pyfloat_def)
  moreover have "chapter_num_str (Finite 5) = Inr ''0005''" by code_simp
  moreover have "chapter_num_str (Finite (11 / 2)) = Inr ''0005''" by code_simp
  moreover have "extract_chapter_number ''Vol.9 Floor 5'' = Some (Finite 9005)" by code_simp
  moreover have "extract_chapter_number ''Vol.10 Floor 5'' = Some (Finite 10005)" by code_simp
  moreover have "Finite 9005 < Finite 10005" by (simp add: less_pyfloat_def)
  moreover have "chapter_num_str (Finite 9005) = Inr ''9005''" by code_simp
  moreover have "chapter_num_str (Finite 10005) = Inr ''10005''" by code_simp
  moreover have "(''10005'' :: string) < ''9005''" by simp
  ultimately show ?thesis by blast
qed

text \<open>
  C8 on the code. The name \<^verbatim>\<open>Ch.0\<close> has the key 0.0, which Python's \<^verbatim>\<open>or\<close> takes for
  false: the name gets the infinite sentinel although its extraction succeeded, and
  \<^verbatim>\<open>get_chapter_directories\<close> puts chapter 0 after chapter 1.
\<close>

theorem chapter_zero_sorted_last:
  "extract_chapter_number ''Ch.0'' = Some (Finite 0) \<and>
   extract_chapter_number ''Ch.1'' = Some (Finite 1) \<and>
   or_inf (extract_chapter_number ''Ch.0'') = Infinity \<and>
   get_chapter_directories [(''Ch.0'', Directory [''1.jpg'']), (''Ch.1'', Directory [''1.jpg''])] =
     [''Ch.1'', ''Ch.0'']"
proof -
  have "extract_chapter_number ''Ch.0'' = Some (Finite 0)" by code_simp
  moreover have "extract_chapter_number ''Ch.1'' = Some (Finite 1)" by code_simp
  moreover have "or_inf (extract_chapter_number ''Ch.0'') = Infinity" by code_simp
  moreover have
    "get_chapter_directories [(''Ch.0'', Directory [''1.jpg'']), (''Ch.1'', Directory [''1.jpg''])] =
       [''Ch.1'', ''Ch.0'']"
    by code_simp
  ultimately show ?thesis by blast
qed

section \<open>Properties of the directory combiner: the archive\<close>

lemma round_half_even_nonneg: "0 \<le> x \<Longrightarrow> 0 \<le> round_half_even x"
  by (auto simp: round_half_even_def Let_def)

lemma pow2_pos: "0 < pow2 u"
  by (simp add: pow2_def)

lemma binary64_nonneg: "binary64 x = Finite v \<Longrightarrow> 0 \<le> v"
  by (auto simp: binary64_def Let_def pow2_pos round_half_even_nonneg less_imp_le
           split: if_splits)

lemma extract_chapter_number_nonneg:
  assumes "extract_chapter_number d = Some (Finite q)"
  shows "0 \<le> q"
  using assms
  by (auto simp: extract_chapter_number_def rule_number_def rule_floor_def rule_extra_def
        float_of_str_def Let_def
      split: option.splits dest: binary64_nonneg)

lemma chapter_num_str_in_range:
  assumes "extract_chapter_number d = Some x" and "key_in_range d"
  shows "chapter_num_str x = Inr (fixed_digits 4 (int_key d))" and "0 \<le> int_key d" and "int_key d < 10 ^ 4"
proof -
  from assms(2) obtain n where n: "whole_key d = Some n" and less: "n < 10000"
    by (auto simp: key_in_range_def split: option.splits)
  with assms(1) obtain q where x: "x = Finite q" and q: "q = of_int n"
    by (auto simp: whole_key_def split: pyfloat.splits if_splits)
  have "extract_chapter_number d = Some (Finite q)" using assms(1) x by simp
  then have nn: "0 \<le> q" by (rule extract_chapter_number_nonneg)
  have k: "int_key d = n" using n by (simp add: int_key_def)
  from nn q less show "0 \<le> int_key d" "int_key d < 10 ^ 4"
    by (simp_all add: k)
  then show "chapter_num_str x = Inr (fixed_digits 4 (int_key d))"
    using x q k by (simp add: chapter_num_str_def int_of_float_def format_0d_fixed)
qed

lemma update_fresh: "k \<notin> fst ` set al \<Longrightarrow> AList.update k v al = al @ [(k, v)]"
  by (induction al) auto

lemma fold_update_fresh:
  "distinct (map fst (al @ ps)) \<Longrightarrow> fold (\<lambda>(k, v). AList.update k v) ps al = al @ ps"
proof (induction ps arbitrary: al)
  case Nil
  then show ?case by simp
next
  case (Cons p ps)
  obtain k v where p: "p = (k, v)" by (cases p)
  from Cons.prems have "k \<notin> fst ` set al" by (auto simp: p)
  then have "AList.update k v al = al @ [(k, v)]" by (rule update_fresh)
  moreover from Cons.prems have "distinct (map fst ((al @ [(k, v)]) @ ps))" by (simp add: p)
  ultimately show ?case using Cons.IH [of "al @ [(k, v)]"] by (simp add: p)
qed

lemma entry_name_less_key:
  assumes "0 \<le> k" "k < k'" "k' < 10000"
  shows "entry_name k i f < entry_name k' j g"
proof -
  from assms(3) have "k' < 10 ^ 4" by simp
  with assms(1,2) have "fixed_digits 4 k < fixed_digits 4 k'"
    by (rule fixed_digits_less)
  then show ?thesis
    unfolding entry_name_def by (intro append_less_same_length) simp_all
qed

lemma entry_name_less_index:
  assumes "i < j" "j < 1000"
  shows "entry_name k i f < entry_name k j g"
proof -
  have "fixed_digits 3 (int i) < fixed_digits 3 (int j)"
    using assms by (intro fixed_digits_less) simp_all
  then have "fixed_digits 3 (int i) @ snd (splitext f) < fixed_digits 3 (int j) @ snd (splitext g)"
    by (intro append_less_same_length) simp_all
  then show ?thesis
    by (simp add: entry_name_def append_less_same_prefix)
qed

lemma sorted_wrt_concat_map:
  assumes "sorted_wrt Q ds"
    and "\<And>d. d \<in> set ds \<Longrightarrow> sorted_wrt R (F d)"
    and "\<And>d d' x y. d \<in> set ds \<Longrightarrow> d' \<in> set ds \<Longrightarrow> Q d d' \<Longrightarrow>
           x \<in> set (F d) \<Longrightarrow> y \<in> set (F d') \<Longrightarrow> R x y"
  shows "sorted_wrt R (concat (map F ds))"
  using assms
proof (induction ds)
  case Nil
  then show ?case by simp
next
  case (Cons d ds)
  have tail: "sorted_wrt R (concat (map F ds))"
  proof (rule Cons.IH)
    show "sorted_wrt Q ds" using Cons.prems(1) by simp
    show "sorted_wrt R (F d')" if "d' \<in> set ds" for d'
      using that Cons.prems(2) by simp
    show "R x y" if "a \<in> set ds" "b \<in> set ds" "Q a b" "x \<in> set (F a)" "y \<in> set (F b)"
      for a b x y
      using that Cons.prems(3) [of a b x y] by simp
  qed
  have head: "sorted_wrt R (F d)" using Cons.prems(2) by simp
  have cross: "R x y" if "x \<in> set (F d)" "y \<in> set (concat (map F ds))" for x y
  proof -
    from that(2) obtain d' where d': "d' \<in> set ds" "y \<in> set (F d')" by auto
    with Cons.prems(1) have "Q d d'" by simp
    with d' that(1) show ?thesis using Cons.prems(3) [of d d' x y] by simp
  qed
  from tail head cross show ?case by (simp add: sorted_wrt_append)
qed

lemma chapter_entries_names_sorted:
  assumes "length (images manga_dir d) \<le> 999"
  shows "sorted_wrt (<) (map fst (chapter_entries manga_dir d))"
  unfolding sorted_wrt_iff_nth_less
proof (intro allI impI)
  fix i j
  assume ij: "i < j" and "j < length (map fst (chapter_entries manga_dir d))"
  then have j: "j < length (images manga_dir d)"
    by (simp add: chapter_entries_def del: upt_Suc)
  with ij have i: "i < length (images manga_dir d)" by simp
  have "map fst (chapter_entries manga_dir d) ! i =
        entry_name (int_key d) (Suc i) (images manga_dir d ! i)"
    using i by (simp add: chapter_entries_def del: upt_Suc)
  moreover have "map fst (chapter_entries manga_dir d) ! j =
        entry_name (int_key d) (Suc j) (images manga_dir d ! j)"
    using j by (simp add: chapter_entries_def del: upt_Suc)
  moreover have "entry_name (int_key d) (Suc i) (images manga_dir d ! i) <
        entry_name (int_key d) (Suc j) (images manga_dir d ! j)"
    using ij j assms by (intro entry_name_less_index) simp_all
  ultimately show "map fst (chapter_entries manga_dir d) ! i < map fst (chapter_entries manga_dir d) ! j"
    by simp
qed

lemma chapter_entries_name:
  assumes "e \<in> set (chapter_entries manga_dir d)"
  shows "\<exists>i f. fst e = entry_name (int_key d) i f"
proof -
  from assms obtain i f where "e = (entry_name (int_key d) i f, (d, f))"
    unfolding chapter_entries_def by auto
  then show ?thesis by auto
qed

lemma mset_concat_map_cong:
  assumes "mset xs = mset ys"
  shows "mset (concat (map f xs)) = mset (concat (map f ys))"
proof -
  have "mset (concat (map f zs)) = sum_mset (image_mset (\<lambda>z. mset (f z)) (mset zs))" for zs
    by (induction zs) simp_all
  with assms show ?thesis by simp
qed

lemma map_filter_map_of:
  assumes "distinct (map fst ps)" and "set es \<subseteq> set ps"
  shows "List.map_filter (\<lambda>file. map_option (Pair file) (map_of ps file)) (map fst es) = es"
  using assms(2)
proof (induction es)
  case Nil
  then show ?case by simp
next
  case (Cons e es)
  then have "map_of ps (fst e) = Some (snd e)"
    using assms(1) by (cases e) auto
  with Cons show ?case by simp
qed


lemma listdir_subdirectory:
  assumes "distinct (map fst manga_dir)" and "d \<in> set (subdirectories manga_dir)"
  shows "\<exists>files. listdir manga_dir d = Inr files"
proof -
  from assms(2) obtain e where e: "(d, e) \<in> set manga_dir" "isdir e"
    by (auto simp: subdirectories_def)
  with assms(1) have "map_of manga_dir d = Some e" by simp
  with e(2) show ?thesis
    by (cases e) (simp_all add: listdir_def)
qed

lemma process_chapter_entries:
  assumes "listdir manga_dir d = Inr files" and "length (images manga_dir d) \<le> 999"
  shows "process_chapter d files temp (fixed_digits 4 (int_key d)) =
           fold (\<lambda>(k, v). AList.update k v) (chapter_entries manga_dir d) temp"
proof -
  have imgs: "images manga_dir d = sort (filter is_image files)"
    using assms(1) by (simp add: images_def)
  have name: "new_name (fixed_digits 4 (int_key d)) i f = entry_name (int_key d) i f"
    if "(i, f) \<in> set (zip [1 ..< Suc (length (images manga_dir d))] (images manga_dir d))" for i f
  proof -
    from that have "i < Suc (length (images manga_dir d))"
      by (auto dest!: set_zip_leftD simp del: upt_Suc)
    with assms(2) have "int i < 10 ^ 3" by simp
    then have "format_0d 3 (int i) = fixed_digits 3 (int i)"
      by (intro format_0d_fixed) simp_all
    then show ?thesis by (simp add: new_name_def entry_name_def)
  qed
  have "fold (\<lambda>(k, v). AList.update k v) (chapter_entries manga_dir d) temp =
        fold (\<lambda>(i, image_file).
                AList.update (entry_name (int_key d) i image_file) (d, image_file))
          (zip [1 ..< Suc (length (images manga_dir d))] (images manga_dir d)) temp"
    by (simp add: chapter_entries_def fold_map comp_def case_prod_unfold del: upt_Suc)
  also have "\<dots> =
        fold (\<lambda>(i, image_file).
                AList.update (new_name (fixed_digits 4 (int_key d)) i image_file) (d, image_file))
          (zip [1 ..< Suc (length (images manga_dir d))] (images manga_dir d)) temp"
    by (rule fold_cong) (auto simp: name simp del: upt_Suc)
  finally show ?thesis
    by (simp add: process_chapter_def imgs Let_def del: upt_Suc)
qed

lemma combine_loop_entries:
  assumes "distinct (map fst manga_dir)"
    and "set ds \<subseteq> set (subdirectories manga_dir)"
    and "\<And>d. d \<in> set ds \<Longrightarrow> extract_chapter_number d \<noteq> None \<Longrightarrow>
           key_in_range d \<and> length (images manga_dir d) \<le> 999"
  shows "combine_loop manga_dir ds (temp, w) =
           Inr (fold (\<lambda>(k, v). AList.update k v)
                  (concat (map (chapter_entries manga_dir)
                     (filter (\<lambda>d. extract_chapter_number d \<noteq> None) ds))) temp,
                w @ filter (\<lambda>d. extract_chapter_number d = None) ds)"
  using assms(2,3)
proof (induction ds arbitrary: temp w)
  case Nil
  then show ?case by simp
next
  case (Cons d ds)
  have sub: "set ds \<subseteq> set (subdirectories manga_dir)" using Cons.prems(1) by simp
  have rest: "\<And>d'. d' \<in> set ds \<Longrightarrow> extract_chapter_number d' \<noteq> None \<Longrightarrow>
      key_in_range d' \<and> length (images manga_dir d') \<le> 999"
    using Cons.prems(2) by simp
  note IH = Cons.IH [OF sub rest]
  show ?case
  proof (cases "extract_chapter_number d")
    case None
    then show ?thesis using IH by simp
  next
    case (Some x)
    then have range: "key_in_range d" and count: "length (images manga_dir d) \<le> 999"
      using Cons.prems(2) [of d] by simp_all
    have str: "chapter_num_str x = Inr (fixed_digits 4 (int_key d))"
      using Some range by (rule chapter_num_str_in_range)
    from listdir_subdirectory [OF assms(1), of d] Cons.prems(1)
    obtain files where files: "listdir manga_dir d = Inr files" by auto
    show ?thesis
      using Some str files IH process_chapter_entries [OF files count]
      by simp
  qed
qed

lemma strictly_sorted_keys:
  assumes "distinct (map int_key ds)"
  shows "sorted_wrt (\<lambda>a b. int_key a < int_key b) (sort_key int_key ds)"
proof -
  have "distinct (map int_key (sort_key int_key ds))"
    using assms by (simp add: distinct_map)
  moreover have "sorted (map int_key (sort_key int_key ds))" by simp
  ultimately have "sorted_wrt (<) (map int_key (sort_key int_key ds))"
    by (simp add: strict_sorted_iff)
  then show ?thesis by (simp add: sorted_wrt_map)
qed

lemma expected_archive_names_sorted:
  assumes "list_all key_in_range (parsed_dirs manga_dir)"
    and "distinct (map int_key (parsed_dirs manga_dir))"
    and "list_all (\<lambda>d. length (images manga_dir d) \<le> 999) (parsed_dirs manga_dir)"
  shows "sorted_wrt (<) (map fst (expected_archive manga_dir))"
proof -
  let ?ds = "sort_key int_key (parsed_dirs manga_dir)"
  have parsed: "extract_chapter_number d \<noteq> None" "key_in_range d"
      "length (images manga_dir d) \<le> 999" if "d \<in> set ?ds" for d
    using that assms(1,3) by (auto simp: list_all_iff parsed_dirs_def)
  have "sorted_wrt (\<lambda>x y. fst x < fst y) (concat (map (chapter_entries manga_dir) ?ds))"
  proof (rule sorted_wrt_concat_map [where Q = "\<lambda>a b. int_key a < int_key b"])
    show "sorted_wrt (\<lambda>a b. int_key a < int_key b) ?ds"
      using assms(2) by (rule strictly_sorted_keys)
    show "sorted_wrt (\<lambda>x y. fst x < fst y) (chapter_entries manga_dir d)" if "d \<in> set ?ds" for d
      using chapter_entries_names_sorted [OF parsed(3) [OF that]] by (simp add: sorted_wrt_map)
    show "fst x < fst y"
      if "d \<in> set ?ds" "d' \<in> set ?ds" "int_key d < int_key d'"
        "x \<in> set (chapter_entries manga_dir d)" "y \<in> set (chapter_entries manga_dir d')"
      for d d' x y
    proof -
      from parsed(1) [OF that(1)] obtain v where v: "extract_chapter_number d = Some v" by auto
      from parsed(1) [OF that(2)] obtain v' where v': "extract_chapter_number d' = Some v'" by auto
      have "0 \<le> int_key d" using chapter_num_str_in_range(2) [OF v parsed(2) [OF that(1)]] .
      moreover have "int_key d' < 10 ^ 4"
        using chapter_num_str_in_range(3) [OF v' parsed(2) [OF that(2)]] .
      ultimately show ?thesis
        using that(3) chapter_entries_name [OF that(4)] chapter_entries_name [OF that(5)]
        by (auto intro!: entry_name_less_key)
    qed
  qed
  then show ?thesis
    by (simp add: expected_archive_def sorted_wrt_map)
qed

text \<open>
  C5, as the code has it. Take a manga directory whose listing has no name twice and at
  least one subdirectory, and in which the parsed subdirectories have whole-number keys
  below 10000, pairwise different, and at most 999 images each. Then
  \<^verbatim>\<open>combine_chapters\<close> returns normally; the archive holds exactly the images of the parsed
  subdirectories, each once, under the name made of the four digits of the chapter key, an
  underscore, the three digits of the page index and the extension of the image, the
  chapters by ascending key and the pages of a chapter by ascending index; and the
  subdirectories whose name does not parse add no entry and are each warned about.
\<close>

theorem combine_chapters_archive:
  assumes "distinct (map fst manga_dir)"
    and "subdirectories manga_dir \<noteq> []"
    and "list_all key_in_range (parsed_dirs manga_dir)"
    and "distinct (map int_key (parsed_dirs manga_dir))"
    and "list_all (\<lambda>d. length (images manga_dir d) \<le> 999) (parsed_dirs manga_dir)"
  shows "combine_chapters manga_dir = Inr (expected_archive manga_dir, unparsed_dirs manga_dir)"
proof -
  let ?K = "\<lambda>x. or_inf (extract_chapter_number x)"
  let ?ds = "get_chapter_directories manga_dir"
  let ?P = "concat (map (chapter_entries manga_dir) (sort_key ?K (parsed_dirs manga_dir)))"
  let ?L = "expected_archive manga_dir"
  have ds: "?ds = sort_key ?K (subdirectories manga_dir)"
    by (simp add: get_chapter_directories_def subdirectories_def)
  have "set ?ds = set (subdirectories manga_dir)"
    by (simp add: ds)
  with assms(2) have nonempty: "?ds \<noteq> []"
    by (metis set_empty)
  have warn: "filter (\<lambda>d. extract_chapter_number d = None) ?ds = unparsed_dirs manga_dir"
  proof -
    have "?K d = Infinity" if "d \<in> set (unparsed_dirs manga_dir)" for d
      using that by (simp add: unparsed_dirs_def or_inf_def)
    then have "sorted (map ?K (unparsed_dirs manga_dir))"
      by (simp add: sorted_iff_nth_mono)
    then show ?thesis
      by (simp add: ds filter_sort sort_key_id_if_sorted flip: unparsed_dirs_def)
  qed
  have "combine_loop manga_dir ?ds ([], []) =
      Inr (fold (\<lambda>(k, v). AList.update k v)
             (concat (map (chapter_entries manga_dir)
                (filter (\<lambda>d. extract_chapter_number d \<noteq> None) ?ds))) [],
           [] @ filter (\<lambda>d. extract_chapter_number d = None) ?ds)"
  proof (rule combine_loop_entries [OF assms(1)])
    show "set ?ds \<subseteq> set (subdirectories manga_dir)" by (simp add: ds)
    show "key_in_range d \<and> length (images manga_dir d) \<le> 999"
      if "d \<in> set ?ds" "extract_chapter_number d \<noteq> None" for d
      using that assms(3,5) by (auto simp: ds list_all_iff parsed_dirs_def)
  qed
  moreover have "filter (\<lambda>d. extract_chapter_number d \<noteq> None) ?ds =
      sort_key ?K (parsed_dirs manga_dir)"
    unfolding ds parsed_dirs_def by (rule filter_sort)
  ultimately have loop: "combine_loop manga_dir ?ds ([], []) =
      Inr (fold (\<lambda>(k, v). AList.update k v) ?P [], unparsed_dirs manga_dir)"
    unfolding warn by (simp only: append_Nil)
  have mset: "mset ?P = mset ?L"
    unfolding expected_archive_def by (rule mset_concat_map_cong) simp
  have sorted_L: "sorted_wrt (<) (map fst ?L)"
    using assms(3,4,5) by (rule expected_archive_names_sorted)
  then have "distinct (map fst ?L)" and sorted: "sorted (map fst ?L)"
    by (simp_all add: strict_sorted_iff)
  moreover have mset_fst: "mset (map fst ?P) = mset (map fst ?L)"
    using mset by simp
  ultimately have dist: "distinct (map fst ?P)"
    using mset_eq_imp_distinct_iff by blast
  then have temp: "fold (\<lambda>(k, v). AList.update k v) ?P [] = ?P"
    using fold_update_fresh [of "[]" ?P] by simp
  have names: "sort (map fst ?P) = map fst ?L"
    using mset_fst sorted by (intro properties_for_sort) simp_all
  have "set ?L \<subseteq> set ?P"
    using mset_eq_setD [OF mset] by simp
  with dist have "List.map_filter (\<lambda>file. map_option (Pair file) (map_of ?P file)) (map fst ?L) = ?L"
    by (rule map_filter_map_of)
  with loop temp names nonempty show ?thesis
    by (simp add: combine_chapters_def)
qed

theorem combine_chapters_archive_witness:
  "distinct (map fst
     [(''Ch.2'', Directory [''b.png'', ''a.JPG'', ''notes.txt'']), (''misc'', Directory [''z.jpg'']),
      (''cover.jpg'', RegularFile), (''Ch.1'', Directory [''1.webp''])]) \<and>
   subdirectories
     [(''Ch.2'', Directory [''b.png'', ''a.JPG'', ''notes.txt'']), (''misc'', Directory [''z.jpg'']),
      (''cover.jpg'', RegularFile), (''Ch.1'', Directory [''1.webp''])] \<noteq> [] \<and>
   parsed_dirs
     [(''Ch.2'', Directory [''b.png'', ''a.JPG'', ''notes.txt'']), (''misc'', Directory [''z.jpg'']),
      (''cover.jpg'', RegularFile), (''Ch.1'', Directory [''1.webp''])] = [''Ch.2'', ''Ch.1''] \<and>
   key_in_range ''Ch.2'' \<and> key_in_range ''Ch.1'' \<and> int_key ''Ch.2'' = 2 \<and> int_key ''Ch.1'' = 1 \<and>
   combine_chapters
     [(''Ch.2'', Directory [''b.png'', ''a.JPG'', ''notes.txt'']), (''misc'', Directory [''z.jpg'']),
      (''cover.jpg'', RegularFile), (''Ch.1'', Directory [''1.webp''])] =
     Inr ([(''0001_001.webp'', (''Ch.1'', ''1.webp'')), (''0002_001.JPG'', (''Ch.2'', ''a.JPG'')),
           (''0002_002.png'', (''Ch.2'', ''b.png''))],
          [''misc''])"
proof -
  let ?tree = "[(''Ch.2'', Directory [''b.png'', ''a.JPG'', ''notes.txt'']), (''misc'', Directory [''z.jpg'']),
      (''cover.jpg'', RegularFile), (''Ch.1'', Directory [''1.webp''])]"
  have h1: "distinct (map fst ?tree)" by simp
  have h2: "subdirectories ?tree \<noteq> []" by (simp add: subdirectories_def)
  have parsed: "parsed_dirs ?tree = [''Ch.2'', ''Ch.1'']" by code_simp
  have range: "key_in_range ''Ch.2''" "key_in_range ''Ch.1''" by code_simp+
  have keys: "int_key ''Ch.2'' = 2" "int_key ''Ch.1'' = 1" by code_simp+
  have count: "length (images ?tree ''Ch.2'') \<le> 999" "length (images ?tree ''Ch.1'') \<le> 999"
    by code_simp+
  have h3: "list_all key_in_range (parsed_dirs ?tree)"
    unfolding parsed using range by simp
  have h4: "distinct (map int_key (parsed_dirs ?tree))"
    unfolding parsed using keys by simp
  have h5: "list_all (\<lambda>d. length (images ?tree d) \<le> 999) (parsed_dirs ?tree)"
    unfolding parsed using count by simp
  have expected: "expected_archive ?tree =
      [(''0001_001.webp'', (''Ch.1'', ''1.webp'')), (''0002_001.JPG'', (''Ch.2'', ''a.JPG'')),
       (''0002_002.png'', (''Ch.2'', ''b.png''))]"
    by code_simp
  have unparsed: "unparsed_dirs ?tree = [''misc'']" by code_simp
  from combine_chapters_archive [OF h1 h2 h3 h4 h5]
  have "combine_chapters ?tree =
      Inr ([(''0001_001.webp'', (''Ch.1'', ''1.webp'')), (''0002_001.JPG'', (''Ch.2'', ''a.JPG'')),
            (''0002_002.png'', (''Ch.2'', ''b.png''))], [''misc''])"
    by (simp only: expected unparsed)
  with h1 h2 parsed range keys show ?thesis by blast
qed

text \<open>
  C5 as stated fails on these directories. Two names with the key 5.0 give their images the
  same entry name: the later chapter replaces the image of the earlier one, and the archive
  lacks an image of a parsed chapter; so do the names with the keys 5.0 and 5.5, the second
  of which is not a whole number. Keys from 10000 on have five digits, and the chapter
  10005 comes before the chapter 9005 in the archive. The page 1000 of a chapter gets a
  name that sorts before that of the page 101. And a directory without subdirectories
  makes the run fail.
\<close>

theorem combine_chapters_counterexample:
  "extract_chapter_number ''Ch.5'' = Some (Finite 5) \<and>
   extract_chapter_number ''Chapter 5'' = Some (Finite 5) \<and>
   combine_chapters [(''Ch.5'', Directory [''a.jpg'']), (''Chapter 5'', Directory [''b.jpg''])] =
     Inr ([(''0005_001.jpg'', (''Chapter 5'', ''b.jpg''))], []) \<and>
   extract_chapter_number ''Ch.5.5'' = Some (Finite (11 / 2)) \<and>
   combine_chapters [(''Ch.5'', Directory [''a.jpg'']), (''Ch.5.5'', Directory [''b.jpg''])] =
     Inr ([(''0005_001.jpg'', (''Ch.5.5'', ''b.jpg''))], []) \<and>
   combine_chapters
     [(''Vol.9 Floor 5'', Directory [''a.jpg'']), (''Vol.10 Floor 5'', Directory [''b.jpg''])] =
     Inr ([(''10005_001.jpg'', (''Vol.10 Floor 5'', ''b.jpg'')),
           (''9005_001.jpg'', (''Vol.9 Floor 5'', ''a.jpg''))], []) \<and>
   new_name ''0005'' 1000 ''p.jpg'' = ''0005_1000.jpg'' \<and>
   new_name ''0005'' 101 ''q.jpg'' = ''0005_101.jpg'' \<and>
   (''0005_1000.jpg'' :: string) < ''0005_101.jpg'' \<and>
   combine_chapters [(''notes.txt'', RegularFile)] =
     Inl (Exception ''No chapter directories found in the selected manga directory'')"
proof -
  have "extract_chapter_number ''Ch.5'' = Some (Finite 5)" by code_simp
  moreover have "extract_chapter_number ''Chapter 5'' = Some (Finite 5)" by code_simp
  moreover have
    "combine_chapters [(''Ch.5'', Directory [''a.jpg'']), (''Chapter 5'', Directory [''b.jpg''])] =
       Inr ([(''0005_001.jpg'', (''Chapter 5'', ''b.jpg''))], [])"
    by code_simp
  moreover have "extract_chapter_number ''Ch.5.5'' = Some (Finite (11 / 2))" by code_simp
  moreover have
    "combine_chapters [(''Ch.5'', Directory [''a.jpg'']), (''Ch.5.5'', Directory [''b.jpg''])] =
       Inr ([(''0005_001.jpg'', (''Ch.5.5'', ''b.jpg''))], [])"
    by code_simp
  moreover have
    "combine_chapters
       [(''Vol.9 Floor 5'', Directory [''a.jpg'']), (''Vol.10 Floor 5'', Directory [''b.jpg''])] =
       Inr ([(''10005_001.jpg'', (''Vol.10 Floor 5'', ''b.jpg'')),
             (''9005_001.jpg'', (''Vol.9 Floor 5'', ''a.jpg''))], [])"
    by code_simp
  moreover have "new_name ''0005'' 1000 ''p.jpg'' = ''0005_1000.jpg''" by code_simp
  moreover have "new_name ''0005'' 101 ''q.jpg'' = ''0005_101.jpg''" by code_simp
  moreover have "(''0005_1000.jpg'' :: string) < ''0005_101.jpg''" by simp
  moreover have
    "combine_chapters [(''notes.txt'', RegularFile)] =
       Inl (Exception ''No chapter directories found in the selected manga directory'')"
    by code_simp
  ultimately show ?thesis by blast
qed

section \<open>Properties of the fetch pipeline\<close>











text \<open>
  C3 on the code. With \<^verbatim>\<open>Chapter_5.0.cbz\<close> and \<^verbatim>\<open>Chapter_6.0.cbz\<close> in the folder (the
  names under which \<^verbatim>\<open>main\<close> stores the chapters labelled 5 and 6),
  \<^verbatim>\<open>get_downloaded_chapters\<close> returns the texts \<^verbatim>\<open>5.0\<close> and \<^verbatim>\<open>6.0\<close>. The labels \<^verbatim>\<open>5\<close> and
  \<^verbatim>\<open>6\<close> of the chapter records are not in that set, so the skip test of the loop lets all
  of the chapters 5, 6 and 7 through: the chapters 5 and 6 are not skipped.
\<close>

theorem resume_downloads_finished_chapters_again:
  "chapter_title ''5'' @ ''.cbz'' = ''Chapter_5.0.cbz'' \<and>
   chapter_title ''6'' @ ''.cbz'' = ''Chapter_6.0.cbz'' \<and>
   get_downloaded_chapters [''Chapter_5.0.cbz'', ''Chapter_6.0.cbz''] = {''5.0'', ''6.0''} \<and>
   chapters_to_download (get_downloaded_chapters [''Chapter_5.0.cbz'', ''Chapter_6.0.cbz''])
     [''5'', ''6'', ''7''] = [''5'', ''6'', ''7'']"
proof -
  have "chapter_title ''5'' @ ''.cbz'' = ''Chapter_5.0.cbz''" by code_simp
  moreover have "chapter_title ''6'' @ ''.cbz'' = ''Chapter_6.0.cbz''" by code_simp
  moreover have
    "get_downloaded_chapters [''Chapter_5.0.cbz'', ''Chapter_6.0.cbz''] = {''5.0'', ''6.0''}"
    by code_simp
  moreover have
    "chapters_to_download (get_downloaded_chapters [''Chapter_5.0.cbz'', ''Chapter_6.0.cbz''])
       [''5'', ''6'', ''7''] = [''5'', ''6'', ''7'']"
    by code_simp
  ultimately show ?thesis by blast
qed

lemma download_loop_skips:
  assumes "set skipped \<subseteq> downloaded_chapters"
  shows "download_loop env downloaded_chapters (skipped @ rest) folder =
         download_loop env downloaded_chapters rest folder"
  using assms by (induction skipped) simp_all

lemma download_loop_raises:
  assumes "set skipped \<subseteq> downloaded_chapters" and "chapter_number \<notin> downloaded_chapters"
  shows "\<exists>folder'. download_loop env downloaded_chapters (skipped @ chapter_number # rest) folder =
           (Some (case download_chapter env chapter_number of
                    Inl (e, image_dir_there, archive) \<Rightarrow> e
                  | Inr n \<Rightarrow> TypeError ''Object of type set is not JSON serializable''),
            folder')"
  unfolding download_loop_skips [OF assms(1)] using assms(2)
  by (simp add: Let_def split: sum.splits prod.splits)

text \<open>
  C6, as the code has it. Take a run that names the output folder, does not quit at the
  resume prompt, saves the metadata, gets the cover and the chapter records, and comes to a
  first chapter whose label, a numeral, is not among the downloaded ones (the labels
  before it are, and so are numerals that a file name gave). Then a step of that chapter
  raises: the exception of the fetch or of the archive, or else the \<^verbatim>\<open>TypeError\<close> of
  \<^verbatim>\<open>json.dump\<close> when the statistics are written. When that exception is of the class
  \<^verbatim>\<open>Exception\<close> and \<^verbatim>\<open>shutil.rmtree\<close> succeeds in the handler, the run ends with that same
  exception and the output folder is absent after the run.
\<close>

theorem failed_chapter_removes_folder:
  assumes "search_manga env = Inr safe_title"
    and "found = get_downloaded_chapters (map fst (case world of None \<Rightarrow> [] | Some files \<Rightarrow> files))"
    and "found = {} \<or> resume_choice env \<noteq> ''3''"
    and "downloaded_chapters = (if found \<noteq> {} \<and> resume_choice env = ''2'' then {} else found)"
    and "save_metadata env = None"
    and "download_cover env = Inr cover"
    and "check_chapter_availability env = Inr True"
    and "get_chapters env = Inr (skipped @ chapter_number # rest)"
    and "set skipped \<subseteq> downloaded_chapters"
    and "chapter_number \<notin> downloaded_chapters"
    and "is_numeral chapter_number"
    and "raised = (case download_chapter env chapter_number of
                    Inl (e, image_dir_there, archive) \<Rightarrow> e
                  | Inr n \<Rightarrow> TypeError ''Object of type set is not JSON serializable'')"
    and "is_Exception raised"
    and "rmtree env = None"
  shows "main env world = (Some raised, None)"
proof -
  define folder0 where "folder0 = (case world of None \<Rightarrow> [] | Some files \<Rightarrow> files)"
  define chapters where "chapters = skipped @ chapter_number # rest"
  have found: "get_downloaded_chapters (map fst folder0) = found"
    by (simp add: folder0_def assms(2))
  have chapters: "get_chapters env = Inr chapters" and nonempty: "chapters \<noteq> []"
    by (simp_all add: chapters_def assms(8))
  have "\<exists>folder'. download_loop env downloaded_chapters chapters folder = (Some raised, folder')"
    for folder
    unfolding chapters_def assms(12) using assms(9,10) by (rule download_loop_raises)
  then obtain after where
    loop: "download_loop env downloaded_chapters chapters folder = (Some raised, after folder)"
    for folder
    by metis
  have "fst (main_in_folder env safe_title folder0) = Some raised"
  proof (cases "found \<noteq> {} \<and> resume_choice env = ''2''")
    case True
    with assms(4) have "downloaded_chapters = {}" by simp
    with True nonempty loop show ?thesis
      by (simp add: main_in_folder_def found assms(5,6,7) chapters
            list.case_eq_if Let_def del: download_loop.simps)
  next
    case False
    then have fresh: "(found \<noteq> {} \<and> resume_choice env = ''2'') = False" by simp
    from assms(3) have quit: "(found \<noteq> {} \<and> resume_choice env = ''3'') = False" by blast
    from assms(4) have "downloaded_chapters = found" by (simp add: fresh)
    with nonempty loop show ?thesis
      by (simp add: main_in_folder_def found fresh quit assms(5,6,7) chapters
            list.case_eq_if Let_def del: download_loop.simps)
  qed
  then obtain folder' where "main_in_folder env safe_title folder0 = (Some raised, folder')"
    by (cases "main_in_folder env safe_title folder0") simp
  then have "main_body env world = (Some raised, Some folder', True)"
    by (simp add: main_body_def assms(1) folder0_def)
  with assms(13,14) show ?thesis
    by (auto simp: main_def)
qed

theorem failed_chapter_removes_folder_witness:
  "search_manga
     \<lparr>search_manga = Inr ''Title'', resume_choice = ''1'', save_metadata = None,
      download_cover = Inr True, check_chapter_availability = Inr True,
      get_chapters = Inr [''1.0'', ''2'', ''3''],
      download_chapter =
        (\<lambda>label. if label = ''2'' then Inl (OSError ''connection reset'', True, None) else Inr 2),
      rmtree = None\<rparr> = Inr ''Title'' \<and>
   get_downloaded_chapters [''Chapter_1.0.cbz''] = {''1.0''} \<and>
   ''1.0'' \<in> {''1.0''} \<and> ''2'' \<notin> {''1.0''} \<and> is_numeral ''2'' \<and> is_numeral ''1'' \<and>
   is_Exception (OSError ''connection reset'') \<and>
   main
     \<lparr>search_manga = Inr ''Title'', resume_choice = ''1'', save_metadata = None,
      download_cover = Inr True, check_chapter_availability = Inr True,
      get_chapters = Inr [''1.0'', ''2'', ''3''],
      download_chapter =
        (\<lambda>label. if label = ''2'' then Inl (OSError ''connection reset'', True, None) else Inr 2),
      rmtree = None\<rparr>
     (Some [(''Chapter_1.0.cbz'', [''000.jpg'', ''metadata.txt''])]) =
     (Some (OSError ''connection reset''), None) \<and>
   is_Exception (TypeError ''Object of type set is not JSON serializable'') \<and>
   main
     \<lparr>search_manga = Inr ''Title'', resume_choice = ''1'', save_metadata = None,
      download_cover = Inr True, check_chapter_availability = Inr True,
      get_chapters = Inr [''1'', ''2''], download_chapter = (\<lambda>label. Inr 2),
      rmtree = None\<rparr> None =
     (Some (TypeError ''Object of type set is not JSON serializable''), None)"
proof -
  let ?env = "\<lparr>search_manga = Inr ''Title'', resume_choice = ''1'', save_metadata = None,
      download_cover = Inr True, check_chapter_availability = Inr True,
      get_chapters = Inr [''1.0'', ''2'', ''3''],
      download_chapter =
        (\<lambda>label. if label = ''2'' then Inl (OSError ''connection reset'', True, None) else Inr 2),
      rmtree = None\<rparr>"
  let ?world = "Some [(''Chapter_1.0.cbz'', [''000.jpg'', ''metadata.txt''])]"
  let ?env' = "\<lparr>search_manga = Inr ''Title'', resume_choice = ''1'', save_metadata = None,
      download_cover = Inr True, check_chapter_availability = Inr True,
      get_chapters = Inr [''1'', ''2''], download_chapter = (\<lambda>label. Inr 2),
      rmtree = None\<rparr>"
  have found: "get_downloaded_chapters [''Chapter_1.0.cbz''] = {''1.0''}"
    by code_simp
  have found': "get_downloaded_chapters [] = {}"
    by (simp add: get_downloaded_chapters_def)
  have label: "is_numeral ''2''" "is_numeral ''1''"
    by code_simp+
  have e: "is_Exception (OSError ''connection reset'')"
    and e': "is_Exception (TypeError ''Object of type set is not JSON serializable'')"
    by (simp_all add: is_Exception_def)
  have "main ?env ?world = (Some (OSError ''connection reset''), None)"
    using failed_chapter_removes_folder
      [of ?env "''Title''" "{''1.0''}" ?world "{''1.0''}" True "[''1.0'']" "''2''" "[''3'']"
          "OSError ''connection reset''"]
    by (simp add: found e label)
  moreover have
    "main ?env' None = (Some (TypeError ''Object of type set is not JSON serializable''), None)"
    using failed_chapter_removes_folder
      [of ?env' "''Title''" "{}" None "{}" True "[]" "''1''" "[''2'']"
          "TypeError ''Object of type set is not JSON serializable''"]
    by (simp add: found' e' label)
  ultimately show ?thesis
    using found e e' label by simp
qed

text \<open>
  C6 as stated fails in these runs. In the first, a resumed run skips chapter 1.0, the fetch
  of chapter 2 raises when its image directory has been made, and \<^verbatim>\<open>shutil.rmtree\<close> raises
  in the handler before it has removed anything: the handler prints the second exception
  and raises the first, and the output folder is still there after the run, with the
  archive of chapter 1.0 and the image directory of chapter 2 in it. In the second, the
  fetch of chapter 1 is interrupted from the keyboard: \<^verbatim>\<open>KeyboardInterrupt\<close> is not of the
  class \<^verbatim>\<open>Exception\<close>, the handler does not run, and the folder stays as it is.
\<close>

theorem failed_cleanup_counterexample:
  "main
     \<lparr>search_manga = Inr ''Title'', resume_choice = ''1'', save_metadata = None,
      download_cover = Inr True, check_chapter_availability = Inr True,
      get_chapters = Inr [''1.0'', ''2'', ''3''],
      download_chapter =
        (\<lambda>label. if label = ''2'' then Inl (OSError ''connection reset'', True, None) else Inr 2),
      rmtree = Some (OSError ''access denied'', [])\<rparr>
     (Some [(''Chapter_1.0.cbz'', [''000.jpg'', ''metadata.txt''])]) =
     (Some (OSError ''connection reset''),
      Some [(''Chapter_1.0.cbz'', [''000.jpg'', ''metadata.txt'']), (''manga_metadata.json'', []),
            (''cover.jpg'', []), (''Chapter_2.0'', [])]) \<and>
   main
     \<lparr>search_manga = Inr ''Title'', resume_choice = ''1'', save_metadata = None,
      download_cover = Inr True, check_chapter_availability = Inr True,
      get_chapters = Inr [''1''],
      download_chapter = (\<lambda>label. Inl (KeyboardInterrupt, True, None)),
      rmtree = None\<rparr> None =
     (Some KeyboardInterrupt,
      Some [(''manga_metadata.json'', []), (''cover.jpg'', []), (''Chapter_1.0'', [])])"
proof -
  let ?env = "\<lparr>search_manga = Inr ''Title'', resume_choice = ''1'', save_metadata = None,
      download_cover = Inr True, check_chapter_availability = Inr True,
      get_chapters = Inr [''1.0'', ''2'', ''3''],
      download_chapter =
        (\<lambda>label. if label = ''2'' then Inl (OSError ''connection reset'', True, None) else Inr 2),
      rmtree = Some (OSError ''access denied'', [])\<rparr>"
  let ?env' = "\<lparr>search_manga = Inr ''Title'', resume_choice = ''1'', save_metadata = None,
      download_cover = Inr True, check_chapter_availability = Inr True,
      get_chapters = Inr [''1''],
      download_chapter = (\<lambda>label. Inl (KeyboardInterrupt, True, None)),
      rmtree = None\<rparr>"
  have found: "get_downloaded_chapters [''Chapter_1.0.cbz''] = {''1.0''}"
    by code_simp
  have found': "get_downloaded_chapters [] = {}"
    by (simp add: get_downloaded_chapters_def)
  have loop:
    "download_loop ?env {''1.0''} [''1.0'', ''2'', ''3'']
       [(''Chapter_1.0.cbz'', [''000.jpg'', ''metadata.txt'']), (''manga_metadata.json'', []),
        (''cover.jpg'', [])] =
       (Some (OSError ''connection reset''),
        [(''Chapter_1.0.cbz'', [''000.jpg'', ''metadata.txt'']), (''manga_metadata.json'', []),
         (''cover.jpg'', []), (''Chapter_2.0'', [])])"
    by code_simp
  have loop':
    "download_loop ?env' {} [''1''] [(''manga_metadata.json'', []), (''cover.jpg'', [])] =
       (Some KeyboardInterrupt,
        [(''manga_metadata.json'', []), (''cover.jpg'', []), (''Chapter_1.0'', [])])"
    by code_simp
  have body: "main_body ?env (Some [(''Chapter_1.0.cbz'', [''000.jpg'', ''metadata.txt''])]) =
     (Some (OSError ''connection reset''),
      Some [(''Chapter_1.0.cbz'', [''000.jpg'', ''metadata.txt'']), (''manga_metadata.json'', []),
            (''cover.jpg'', []), (''Chapter_2.0'', [])], True)"
    by (simp add: main_body_def main_in_folder_def found loop del: download_loop.simps)
  have body': "main_body ?env' None =
     (Some KeyboardInterrupt,
      Some [(''manga_metadata.json'', []), (''cover.jpg'', []), (''Chapter_1.0'', [])], True)"
    by (simp add: main_body_def main_in_folder_def found' loop' del: download_loop.simps)
  show ?thesis
    by (simp add: main_def body body' is_Exception_def)
qed
end
